theory Spec2Isabelle
  imports Complex_Main "HOL-Library.Log_Nat"
begin

section \<open>Entry points and errors\<close>

text \<open>
  The repository holds two entry points with the same structure: \<^verbatim>\<open>src/index.js\<close> (a
  development server that sends messages directly) and the production server whose text
  follows the deployment notes in \<^verbatim>\<open>src/deploy-commands.md\<close> (lines 156 to 1145), with a
  session lock, a message queue and a retry delay with jitter. Definitions without a
  suffix embed the production server; a definition with the suffix \<open>_index\<close> embeds the
  function of the same name in \<^verbatim>\<open>src/index.js\<close> where the two texts differ.
\<close>

text \<open>A JavaScript \<^verbatim>\<open>Error\<close> as the code reads it: its \<^verbatim>\<open>message\<close> and its \<^verbatim>\<open>code\<close>.\<close>

record js_error =
  err_message :: string
  err_code :: "int option"

section \<open>Numbers\<close>

text \<open>
  A JavaScript number is an IEEE 754 double: a real that 53 binary digits and an
  exponent between -1074 and 971 can write, one of the two infinities, or
  \<^verbatim>\<open>NaN\<close>. The two zeros are one value here: the code divides by no number and tests no
  sign, so nothing it computes tells them apart.
\<close>

datatype jsnum = NaN | PosInf | NegInf | Fin real

text \<open>The power of two with an integer exponent, as a real.\<close>

definition two_to :: "int \<Rightarrow> real" where
  "two_to e = (if 0 \<le> e then 2 ^ nat e else 1 / 2 ^ nat (- e))"

text \<open>Rounding to the nearest integer, a tie going to the even one.\<close>

definition rne :: "real \<Rightarrow> int" where
  "rne x = (let n = \<lfloor>x\<rfloor>; d = x - of_int n
            in if d < 1 / 2 then n else if 1 / 2 < d then n + 1
               else if even n then n else n + 1)"

text \<open>
  The binary exponent of a positive real \<open>x\<close>: the \<open>e\<close> with \<open>2^e \<le> x < 2^(e+1)\<close>, read
  from the number of binary digits of the integer part of \<open>x\<close>, or of \<open>1 / x\<close>.
\<close>

definition ilog2 :: "real \<Rightarrow> int" where
  "ilog2 x = (if 1 \<le> x then bitlen \<lfloor>x\<rfloor> - 1 else - bitlen (\<lceil>1 / x\<rceil> - 1))"

text \<open>
  The spacing of the doubles around a positive real: 52 binary digits below its
  exponent, and never below \<open>2^-1074\<close> (the subnormal range).
\<close>

definition quantum :: "real \<Rightarrow> real" where
  "quantum x = two_to (max (ilog2 x) (- 1022) - 52)"

text \<open>The multiple of the spacing nearest to a positive real, ties to even.\<close>

definition nearest :: "real \<Rightarrow> real" where
  "nearest x = of_int (rne (x / quantum x)) * quantum x"

text \<open>
  The double an exact result is rounded to (round to nearest, ties to even); a result
  that rounds to \<open>2^1024\<close> or more in magnitude is an infinity.
\<close>

definition fl :: "real \<Rightarrow> jsnum" where
  "fl x = (if x = 0 then Fin 0
           else if 0 < x then (if two_to 1024 \<le> nearest x then PosInf else Fin (nearest x))
           else (if two_to 1024 \<le> nearest (- x) then NegInf else Fin (- nearest (- x))))"

text \<open>The operators \<^verbatim>\<open>*\<close>, \<^verbatim>\<open>+\<close>, \<^verbatim>\<open>-\<close> and \<^verbatim>\<open>>\<close> on numbers, and \<^verbatim>\<open>Math.min\<close> of two numbers.\<close>

definition jmul :: "jsnum \<Rightarrow> jsnum \<Rightarrow> jsnum" where
  "jmul a b =
     (case (a, b) of
        (Fin x, Fin y) \<Rightarrow> fl (x * y)
      | (Fin x, PosInf) \<Rightarrow> if x = 0 then NaN else if 0 < x then PosInf else NegInf
      | (Fin x, NegInf) \<Rightarrow> if x = 0 then NaN else if 0 < x then NegInf else PosInf
      | (PosInf, Fin y) \<Rightarrow> if y = 0 then NaN else if 0 < y then PosInf else NegInf
      | (NegInf, Fin y) \<Rightarrow> if y = 0 then NaN else if 0 < y then NegInf else PosInf
      | (PosInf, PosInf) \<Rightarrow> PosInf
      | (NegInf, NegInf) \<Rightarrow> PosInf
      | (PosInf, NegInf) \<Rightarrow> NegInf
      | (NegInf, PosInf) \<Rightarrow> NegInf
      | _ \<Rightarrow> NaN)"

definition jadd :: "jsnum \<Rightarrow> jsnum \<Rightarrow> jsnum" where
  "jadd a b =
     (case (a, b) of
        (Fin x, Fin y) \<Rightarrow> fl (x + y)
      | (Fin x, PosInf) \<Rightarrow> PosInf
      | (Fin x, NegInf) \<Rightarrow> NegInf
      | (PosInf, Fin y) \<Rightarrow> PosInf
      | (NegInf, Fin y) \<Rightarrow> NegInf
      | (PosInf, PosInf) \<Rightarrow> PosInf
      | (NegInf, NegInf) \<Rightarrow> NegInf
      | _ \<Rightarrow> NaN)"

definition jneg :: "jsnum \<Rightarrow> jsnum" where
  "jneg a = (case a of NaN \<Rightarrow> NaN | PosInf \<Rightarrow> NegInf | NegInf \<Rightarrow> PosInf | Fin x \<Rightarrow> Fin (- x))"

definition jsub :: "jsnum \<Rightarrow> jsnum \<Rightarrow> jsnum" where
  "jsub a b = jadd a (jneg b)"

definition jgt :: "jsnum \<Rightarrow> jsnum \<Rightarrow> bool" where
  "jgt a b =
     (case (a, b) of
        (NaN, _) \<Rightarrow> False
      | (_, NaN) \<Rightarrow> False
      | (PosInf, PosInf) \<Rightarrow> False
      | (PosInf, _) \<Rightarrow> True
      | (_, PosInf) \<Rightarrow> False
      | (NegInf, _) \<Rightarrow> False
      | (_, NegInf) \<Rightarrow> True
      | (Fin x, Fin y) \<Rightarrow> y < x)"

definition Math_min :: "jsnum \<Rightarrow> jsnum \<Rightarrow> jsnum" where
  "Math_min a b =
     (case (a, b) of
        (NaN, _) \<Rightarrow> NaN
      | (_, NaN) \<Rightarrow> NaN
      | (NegInf, _) \<Rightarrow> NegInf
      | (_, NegInf) \<Rightarrow> NegInf
      | (PosInf, _) \<Rightarrow> b
      | (_, PosInf) \<Rightarrow> a
      | (Fin x, Fin y) \<Rightarrow> Fin (min x y))"

text \<open>
  \<^verbatim>\<open>Math.pow(2, n)\<close> for an integer \<open>n\<close>: the power itself where it is a double, an
  infinity above and zero below.
\<close>

definition Math_pow2 :: "int \<Rightarrow> jsnum" where
  "Math_pow2 n = fl (two_to n)"

text \<open>The double that the literal \<^verbatim>\<open>0.1\<close> denotes.\<close>

definition tenth :: real where
  "tenth = 3602879701896397 / 2 ^ 55"

section \<open>Log entries and configuration\<close>

text \<open>
  A logger call: level, the pieces of the message template in order, and the metadata
  object. Numbers stay numbers, so that no decimal printing has to be modelled.
\<close>

datatype level = Info | Warn | Error

datatype piece = S string | I int | N jsnum

datatype effect =
    Logged level "piece list" "(string \<times> piece) list"
  | Slept jsnum

text \<open>\<^verbatim>\<open>CONFIG\<close> of the production server (deploy-commands.md, lines 183 to 210).\<close>

definition CONFIG_maxRetries :: int where "CONFIG_maxRetries = 3"
definition CONFIG_baseRetryDelay :: real where "CONFIG_baseRetryDelay = 1000"
definition CONFIG_maxRetryDelay :: real where "CONFIG_maxRetryDelay = 30000"
definition CONFIG_lockTtlMs :: int where "CONFIG_lockTtlMs = 300000"
definition CONFIG_qrDebounceMs :: int where "CONFIG_qrDebounceMs = 5000"
definition CONFIG_messageQueueMaxSize :: nat where "CONFIG_messageQueueMaxSize = 100"
definition CONFIG_messageRetryDelay :: int where "CONFIG_messageRetryDelay = 2000"

text \<open>\<^verbatim>\<open>CONFIG.retryDelay\<close> of \<^verbatim>\<open>src/index.js\<close> (line 21).\<close>

definition CONFIG_retryDelay_index :: real where "CONFIG_retryDelay_index = 2000"

section \<open>Recipient normalisation\<close>

text \<open>
  \<^verbatim>\<open>toWhatsAppJID\<close> (index.js, lines 215 to 231; the production server repeats it word for
  word). \<^verbatim>\<open>/\D/g\<close> removes every character that is not one of the ten ASCII digits.
\<close>

definition isDigit :: "char \<Rightarrow> bool" where
  "isDigit c = (c \<in> set ''0123456789'')"

definition startsWith :: "string \<Rightarrow> string \<Rightarrow> bool" where
  "startsWith p s = (take (length p) s = p)"

definition endsWith :: "string \<Rightarrow> string \<Rightarrow> bool" where
  "endsWith p s = (length p \<le> length s \<and> drop (length s - length p) s = p)"

definition toWhatsAppJID :: "string \<Rightarrow> string" where
  "toWhatsAppJID phoneNumber =
     (let cleaned = filter isDigit phoneNumber;
          formatted = (if \<not> startsWith ''55'' cleaned \<and> length cleaned \<le> 11
                       then ''55'' @ cleaned else cleaned)
      in if CHR ''@'' \<notin> set formatted then formatted @ ''@s.whatsapp.net'' else formatted)"

section \<open>Retry policy\<close>

text \<open>A value \<^verbatim>\<open>Math.random()\<close> can return: a number from 0 to below 1.\<close>

definition unitDraw :: "jsnum \<Rightarrow> bool" where
  "unitDraw r = (case r of Fin x \<Rightarrow> 0 \<le> x \<and> x < 1 | NaN \<Rightarrow> False | PosInf \<Rightarrow> False | NegInf \<Rightarrow> False)"

text \<open>
  \<^verbatim>\<open>getBackoffDelay\<close> (deploy-commands.md, lines 279 to 283), called with the attempt
  number alone. The argument \<open>r\<close> is the value \<^verbatim>\<open>Math.random()\<close> returns. Every operation
  rounds as the language does: \<^verbatim>\<open>Math.random() * 0.1 * exponentialDelay\<close> is two
  multiplications from the left.
\<close>

definition getBackoffDelay :: "jsnum \<Rightarrow> int \<Rightarrow> jsnum" where
  "getBackoffDelay r attempt =
     (let exponentialDelay = jmul (Fin CONFIG_baseRetryDelay) (Math_pow2 (attempt - 1));
          jitter = jmul (jmul r (Fin tenth)) exponentialDelay
      in Math_min (jadd exponentialDelay jitter) (Fin CONFIG_maxRetryDelay))"

text \<open>
  \<^verbatim>\<open>withRetry\<close> (deploy-commands.md, lines 288 to 314). The operation is a function on the
  world it acts on; it returns \<open>Inl\<close> of the error it throws or \<open>Inr\<close> of its value.
  \<open>rand k\<close> is the value of \<^verbatim>\<open>Math.random()\<close> drawn after the failure of attempt \<open>k\<close>.
  The result is \<open>Inl e\<close> when \<^verbatim>\<open>withRetry\<close> throws \<open>e\<close>, \<open>Inr (Some v)\<close> when it returns
  the operation's value and \<open>Inr None\<close> when the loop ends without a \<^verbatim>\<open>return\<close>, which
  in JavaScript yields \<^verbatim>\<open>undefined\<close>. The third component lists the log entries and the
  sleeps in the order they happen.
\<close>

function withRetry_loop ::
  "(int \<Rightarrow> jsnum) \<Rightarrow> ('w \<Rightarrow> (js_error + 'a) \<times> 'w) \<Rightarrow> string \<Rightarrow> int \<Rightarrow> int \<Rightarrow> 'w
     \<Rightarrow> (js_error + 'a option) \<times> 'w \<times> effect list" where
  "withRetry_loop rand operation operationName maxRetries attempt w =
     (if attempt \<le> maxRetries then
        (case operation w of
           (Inr v, w') \<Rightarrow> (Inr (Some v), w', [])
         | (Inl error, w') \<Rightarrow>
             (let failed = Logged Warn [S operationName, S '' failed'']
                             [(''attempt'', I attempt), (''maxRetries'', I maxRetries),
                              (''error'', S (err_message error))]
              in if attempt = maxRetries then
                   (Inl error, w',
                    [failed,
                     Logged Error [S operationName, S '' failed after all retries'']
                       [(''attempts'', I maxRetries), (''error'', S (err_message error))]])
                 else
                   (let delay = getBackoffDelay (rand attempt) attempt;
                        (res, w'', effs) =
                           withRetry_loop rand operation operationName maxRetries (attempt + 1) w'
                    in (res, w'',
                        [failed,
                         Logged Info [S ''Retrying '', S operationName]
                           [(''delay'', N delay), (''nextAttempt'', I (attempt + 1))],
                         Slept delay] @ effs))))
      else (Inr None, w, []))"
  by pat_completeness auto
termination
  by (relation "measure (\<lambda>(rand, operation, operationName, maxRetries, attempt, w).
                   nat (maxRetries + 1 - attempt))") auto

definition withRetry ::
  "(int \<Rightarrow> jsnum) \<Rightarrow> ('w \<Rightarrow> (js_error + 'a) \<times> 'w) \<Rightarrow> string \<Rightarrow> int \<Rightarrow> 'w
     \<Rightarrow> (js_error + 'a option) \<times> 'w \<times> effect list" where
  "withRetry rand operation operationName maxRetries w =
     withRetry_loop rand operation operationName maxRetries 1 w"

text \<open>
  \<^verbatim>\<open>withRetry\<close> of \<^verbatim>\<open>src/index.js\<close> (lines 56 to 75): the same loop; the delay is
  \<^verbatim>\<open>CONFIG.retryDelay * Math.pow(2, attempt - 1)\<close>, with no random part and no upper bound.
\<close>

function withRetry_loop_index ::
  "('w \<Rightarrow> (js_error + 'a) \<times> 'w) \<Rightarrow> string \<Rightarrow> int \<Rightarrow> int \<Rightarrow> 'w
     \<Rightarrow> (js_error + 'a option) \<times> 'w \<times> effect list" where
  "withRetry_loop_index operation operationName maxRetries attempt w =
     (if attempt \<le> maxRetries then
        (case operation w of
           (Inr v, w') \<Rightarrow> (Inr (Some v), w', [])
         | (Inl error, w') \<Rightarrow>
             (let failed = Logged Error
                             [S operationName, S '' failed (attempt '', I attempt, S ''/'',
                              I maxRetries, S '')'']
                             [(''error'', S (err_message error))]
              in if attempt = maxRetries then (Inl error, w', [failed])
                 else
                   (let delay = jmul (Fin CONFIG_retryDelay_index) (Math_pow2 (attempt - 1));
                        (res, w'', effs) =
                           withRetry_loop_index operation operationName maxRetries (attempt + 1) w'
                    in (res, w'',
                        [failed,
                         Logged Info [S ''Retrying '', S operationName, S '' in '', N delay, S ''ms''] [],
                         Slept delay] @ effs))))
      else (Inr None, w, []))"
  by pat_completeness auto
termination
  by (relation "measure (\<lambda>(operation, operationName, maxRetries, attempt, w).
                   nat (maxRetries + 1 - attempt))") auto

definition withRetry_index ::
  "('w \<Rightarrow> (js_error + 'a) \<times> 'w) \<Rightarrow> string \<Rightarrow> int \<Rightarrow> 'w
     \<Rightarrow> (js_error + 'a option) \<times> 'w \<times> effect list" where
  "withRetry_index operation operationName maxRetries w =
     withRetry_loop_index operation operationName maxRetries 1 w"

text \<open>
  An operation given by its outcomes: the world is the number of invocations made so
  far, and the \<open>n\<close>-th invocation returns \<open>outcome n\<close> (counting from 1). The final world of
  a run that starts at 0 is the number of times the operation was invoked.
\<close>

definition scripted :: "(int \<Rightarrow> js_error + 'a) \<Rightarrow> int \<Rightarrow> (js_error + 'a) \<times> int" where
  "scripted outcome n = (outcome (n + 1), n + 1)"

text \<open>
  The successive invocations of an operation from the world \<open>w\<close>: the world after \<open>n\<close>
  invocations, and the outcome of the \<open>k\<close>-th invocation (counting from 1).
\<close>

fun worldAfter :: "('w \<Rightarrow> (js_error + 'a) \<times> 'w) \<Rightarrow> 'w \<Rightarrow> nat \<Rightarrow> 'w" where
  "worldAfter operation w 0 = w"
| "worldAfter operation w (Suc n) = snd (operation (worldAfter operation w n))"

definition invocation :: "('w \<Rightarrow> (js_error + 'a) \<times> 'w) \<Rightarrow> 'w \<Rightarrow> int \<Rightarrow> js_error + 'a" where
  "invocation operation w k = fst (operation (worldAfter operation w (nat (k - 1))))"

text \<open>The sleeps among the effects of a run, in order.\<close>

fun sleeps :: "effect list \<Rightarrow> jsnum list" where
  "sleeps [] = []"
| "sleeps (Slept d # es) = d # sleeps es"
| "sleeps (Logged l m meta # es) = sleeps es"

text \<open>An error a remote call may throw, for concrete runs.\<close>

definition econnreset :: js_error where
  "econnreset = \<lparr>err_message = ''ECONNRESET'', err_code = None\<rparr>"

section \<open>Message queue\<close>

text \<open>
  A value of a JSON request body, or a value passed on from one: what \<^verbatim>\<open>express.json()\<close>
  can put into \<^verbatim>\<open>req.body\<close>. \<open>JUndefined\<close> is what reading an absent property gives.
\<close>

datatype jsval =
    JUndefined
  | JNull
  | JBool bool
  | JNum real
  | JStr string
  | JArr "jsval list"
  | JObj "(string \<times> jsval) list"

text \<open>JavaScript truthiness, as \<^verbatim>\<open>!to\<close> and \<^verbatim>\<open>if (qr)\<close> test it.\<close>

fun truthy :: "jsval \<Rightarrow> bool" where
  "truthy JUndefined = False"
| "truthy JNull = False"
| "truthy (JBool b) = b"
| "truthy (JNum x) = (x \<noteq> 0)"
| "truthy (JStr s) = (s \<noteq> [])"
| "truthy (JArr xs) = True"
| "truthy (JObj kvs) = True"

text \<open>
  Calling a string method on a value: only a string has \<^verbatim>\<open>substring\<close> and \<^verbatim>\<open>replace\<close>; on
  any other value the call throws a \<^verbatim>\<open>TypeError\<close> (on \<^verbatim>\<open>undefined\<close> and \<^verbatim>\<open>null\<close> the
  property read itself throws).
\<close>

definition typeError :: "string \<Rightarrow> js_error" where
  "typeError what = \<lparr>err_message = what @ '' is not a function'', err_code = None\<rparr>"

fun asString :: "string \<Rightarrow> jsval \<Rightarrow> js_error + string" where
  "asString what (JStr s) = Inr s"
| "asString what v = Inl (typeError what)"

text \<open>
  The items of \<^verbatim>\<open>MessageQueue.queue\<close> (deploy-commands.md, line 560):
  \<^verbatim>\<open>{ to, message, retries, timestamp }\<close>.
\<close>

record PendingMessage =
  to :: jsval
  message :: jsval
  retries :: int
  timestamp :: int

record MessageQueue =
  queue :: "PendingMessage list"
  processing :: bool

text \<open>
  \<^verbatim>\<open>MessageQueue.enqueue\<close> (deploy-commands.md, lines 554 to 568), called at time \<open>now\<close>. The
  result is the returned boolean, or the \<^verbatim>\<open>TypeError\<close> of \<^verbatim>\<open>message.substring\<close> in the
  branch of the full queue; the last component tells whether \<^verbatim>\<open>processQueue()\<close> is
  started by this call.
\<close>

definition enqueue ::
  "jsval \<Rightarrow> jsval \<Rightarrow> int \<Rightarrow> int \<Rightarrow> MessageQueue \<Rightarrow> (js_error + bool) \<times> MessageQueue \<times> bool" where
  "enqueue to' message' retries' now mq =
     (if length (queue mq) \<ge> CONFIG_messageQueueMaxSize then
        (case asString ''message.substring'' message' of
           Inl e \<Rightarrow> (Inl e, mq, False)
         | Inr preview \<Rightarrow> (Inr False, mq, False))
      else
        (Inr True,
         mq\<lparr>queue := queue mq @ [\<lparr>to = to', message = message', retries = retries', timestamp = now\<rparr>]\<rparr>,
         \<not> processing mq))"

text \<open>
  \<^verbatim>\<open>MessageQueue.sendMessage\<close> (deploy-commands.md, lines 602 to 611). \<open>isConnected\<close> is the
  value of \<^verbatim>\<open>this.bot && this.bot.sock && this.bot.isConnected\<close> when the attempt is made and
  \<open>sock_sendMessage\<close> is the engine's \<^verbatim>\<open>sock.sendMessage\<close> at that moment: it returns the
  delivery identifier or the error it throws.
\<close>

definition MessageQueue_sendMessage ::
  "bool \<Rightarrow> (string \<Rightarrow> jsval \<Rightarrow> js_error + string) \<Rightarrow> jsval \<Rightarrow> jsval \<Rightarrow> js_error + string" where
  "MessageQueue_sendMessage isConnected sock_sendMessage to' message' =
     (if \<not> isConnected then Inl \<lparr>err_message = ''WhatsApp not connected'', err_code = None\<rparr>
      else (case asString ''phoneNumber.replace'' to' of
              Inl e \<Rightarrow> Inl e
            | Inr phoneNumber \<Rightarrow> sock_sendMessage (toWhatsAppJID phoneNumber) message'))"

text \<open>
  What the rest of the program does during one iteration of the loop in
  \<^verbatim>\<open>processQueue\<close>: the connection state and the engine at the send, and the calls of
  \<^verbatim>\<open>enqueue\<close> that other handlers make while the loop is suspended at each of its three
  \<^verbatim>\<open>await\<close>s (the send, the retry delay, the rate-limit delay), as the items they ask for.
\<close>

record tick =
  botConnected :: bool
  sock_sendMessage :: "string \<Rightarrow> jsval \<Rightarrow> js_error + string"
  duringSend :: "PendingMessage list"
  duringRetryDelay :: "PendingMessage list"
  duringRateLimit :: "PendingMessage list"

text \<open>Calls of \<^verbatim>\<open>enqueue\<close> made while the loop runs (\<^verbatim>\<open>processing\<close> is \<^verbatim>\<open>true\<close>).\<close>

fun arrive :: "PendingMessage list \<Rightarrow> PendingMessage list \<Rightarrow> PendingMessage list" where
  "arrive [] q = q"
| "arrive (a # as) q =
     arrive as (queue (fst (snd (enqueue (to a) (message a) (retries a) (timestamp a)
                                   \<lparr>queue = q, processing = True\<rparr>))))"

text \<open>The call \<^verbatim>\<open>this.sendMessage(item.to, item.message)\<close> made during tick \<open>t\<close>.\<close>

definition sendItem :: "tick \<Rightarrow> PendingMessage \<Rightarrow> js_error + string" where
  "sendItem t item =
     MessageQueue_sendMessage (botConnected t) (sock_sendMessage t) (to item) (message item)"

text \<open>
  One iteration of \<^verbatim>\<open>while (this.queue.length > 0)\<close> (deploy-commands.md, lines 574 to
  597) on a queue whose first item is \<open>item\<close>: the attempt that is made, with its outcome,
  and the queue at the end of the iteration.
\<close>

definition processQueue_body ::
  "tick \<Rightarrow> PendingMessage \<Rightarrow> PendingMessage list
     \<Rightarrow> (PendingMessage \<times> (js_error + string)) \<times> PendingMessage list" where
  "processQueue_body t item rest =
     (let q1 = arrive (duringSend t) rest;
          sent = sendItem t item;
          q2 = (case sent of
                  Inr messageId \<Rightarrow> q1
                | Inl error \<Rightarrow>
                    if retries item > 1
                    then arrive (duringRetryDelay t) (item\<lparr>retries := retries item - 1\<rparr> # q1)
                    else q1)
      in ((item, sent), arrive (duringRateLimit t) q2))"

text \<open>
  The loop of \<^verbatim>\<open>processQueue\<close>, one tick per iteration. It returns the attempts in order
  and the queue it stops with; it stops when the queue is empty (the loop's exit, after
  which \<^verbatim>\<open>processing\<close> is \<^verbatim>\<open>false\<close>) or when the ticks given are used up.
\<close>

fun processQueue ::
  "tick list \<Rightarrow> PendingMessage list
     \<Rightarrow> (PendingMessage \<times> (js_error + string)) list \<times> PendingMessage list" where
  "processQueue ts [] = ([], [])"
| "processQueue [] (item # rest) = ([], item # rest)"
| "processQueue (t # ts) (item # rest) =
     (let (attempt, q) = processQueue_body t item rest;
          (attempts, q') = processQueue ts q
      in (attempt # attempts, q'))"

text \<open>The items other handlers ask to enqueue during the given ticks.\<close>

definition arrivals :: "tick list \<Rightarrow> PendingMessage set" where
  "arrivals ts = (\<Union>t \<in> set ts. set (duringSend t) \<union> set (duringRetryDelay t) \<union> set (duringRateLimit t))"

text \<open>
  The attempts on \<open>item\<close> during the ticks \<open>ts\<close> when it is sent at each of them with one
  retry less each time: the \<open>k\<close>-th attempt (from 0) is made on the item with \<open>k\<close> retries
  taken off, at the \<open>k\<close>-th tick.
\<close>

definition attemptsOn :: "tick list \<Rightarrow> PendingMessage \<Rightarrow> (PendingMessage \<times> (js_error + string)) list" where
  "attemptsOn ts item =
     map (\<lambda>k. (item\<lparr>retries := retries item - int k\<rparr>, sendItem (ts ! k) item)) [0..<length ts]"

text \<open>
  The most iterations the loop can spend on the given messages: each is attempted at most
  as often as it has retries, and at least once.
\<close>

fun budget :: "PendingMessage list \<Rightarrow> nat" where
  "budget [] = 0"
| "budget (p # ps) = nat (max 1 (retries p)) + budget ps"

text \<open>
  A concrete run, the scenario of the endpoint test (\<^verbatim>\<open>src/unnamed/part_001\<close>, line 60): the
  bot is offline during three ticks, a newer message is enqueued during the second retry
  delay, and the bot is connected at the fourth tick.
\<close>

definition offline :: tick where
  "offline = \<lparr>botConnected = False, sock_sendMessage = (\<lambda>jid text. Inr ''3EB0''),
               duringSend = [], duringRetryDelay = [], duringRateLimit = []\<rparr>"

definition online :: tick where
  "online = offline\<lparr>botConnected := True\<rparr>"

definition testMessage :: PendingMessage where
  "testMessage = \<lparr>to = JStr ''+5511999999999'', message = JStr ''Test'', retries = 3, timestamp = 0\<rparr>"

definition newer :: PendingMessage where
  "newer = \<lparr>to = JStr ''11888'', message = JStr ''B'', retries = 1, timestamp = 5\<rparr>"

definition threeTicks :: "tick list" where
  "threeTicks = [offline, offline\<lparr>duringRetryDelay := [newer]\<rparr>, offline]"

section \<open>Remote object store\<close>

text \<open>
  The bucket as the code uses it: named objects, each with a content. The only code that
  reads a content is the session lock, which passes it to \<^verbatim>\<open>JSON.parse\<close> and reads the
  fields \<^verbatim>\<open>timestamp\<close>, \<^verbatim>\<open>ttl\<close> and \<^verbatim>\<open>instanceId\<close> of the value (lines 398 to 409). A
  content is given by what that code makes of it. \<open>LockJson d\<close> is a content that
  \<^verbatim>\<open>JSON.parse\<close> accepts with a value other than \<^verbatim>\<open>null\<close>: \<open>lockTime d\<close> and \<open>ttl d\<close> are the
  numbers that its \<^verbatim>\<open>timestamp\<close> and \<^verbatim>\<open>ttl\<close> are in the comparison of line 401 (\<^verbatim>\<open>NaN\<close> for a
  field that is missing, as in \<^verbatim>\<open>{}\<close>, or that is no number), and \<open>instanceId d\<close> is its
  \<^verbatim>\<open>instanceId\<close> (\<open>JUndefined\<close> when missing). \<open>Bytes b\<close> is any other content: one on which
  \<^verbatim>\<open>JSON.parse\<close> throws, or the text \<^verbatim>\<open>null\<close>, whose fields cannot be read.
\<close>

record LockData =
  instanceId :: jsval
  lockTime :: jsnum
  ttl :: jsnum

datatype content = LockJson LockData | Bytes string

text \<open>
  Every remote call can fail for reasons of its own (network, permissions, an outage).
  \<open>faults\<close> is the schedule of such failures: each remote call takes the head of the
  list, \<open>Some e\<close> makes the call throw \<open>e\<close> and \<open>None\<close> lets it run; an empty list lets every
  call run. \<open>calls\<close> records the remote calls made, in order.
\<close>

datatype remote_call =
  Save string | Download string | Delete string | GetFiles string | Upload string

record remote =
  objects :: "(string \<times> content) list"
  faults :: "js_error option list"
  calls :: "remote_call list"

definition nextFault :: "remote_call \<Rightarrow> remote \<Rightarrow> js_error option \<times> remote" where
  "nextFault c w =
     (case faults w of
        [] \<Rightarrow> (None, w\<lparr>calls := calls w @ [c]\<rparr>)
      | f # fs \<Rightarrow> (f, w\<lparr>faults := fs, calls := calls w @ [c]\<rparr>))"

definition httpError :: "int \<Rightarrow> js_error" where
  "httpError status = \<lparr>err_message = ''request failed'', err_code = Some status\<rparr>"

text \<open>
  \<^verbatim>\<open>file.save(data, { preconditionOpts: { ifGenerationMatch: 0 } })\<close>: create only if no
  object has the name, else fail with code 412.
\<close>

definition file_save_new :: "string \<Rightarrow> content \<Rightarrow> remote \<Rightarrow> (js_error + unit) \<times> remote" where
  "file_save_new name c w =
     (case nextFault (Save name) w of
        (Some e, w') \<Rightarrow> (Inl e, w')
      | (None, w') \<Rightarrow>
          if map_of (objects w') name \<noteq> None then (Inl (httpError 412), w')
          else (Inr (), w'\<lparr>objects := objects w' @ [(name, c)]\<rparr>))"

text \<open>\<^verbatim>\<open>file.download()\<close>: the content, or code 404 when no object has the name.\<close>

definition file_download :: "string \<Rightarrow> remote \<Rightarrow> (js_error + content) \<times> remote" where
  "file_download name w =
     (case nextFault (Download name) w of
        (Some e, w') \<Rightarrow> (Inl e, w')
      | (None, w') \<Rightarrow>
          (case map_of (objects w') name of
             None \<Rightarrow> (Inl (httpError 404), w')
           | Some c \<Rightarrow> (Inr c, w')))"

text \<open>\<^verbatim>\<open>file.delete()\<close>: removes the object, or fails with code 404 when there is none.\<close>

definition file_delete :: "string \<Rightarrow> remote \<Rightarrow> (js_error + unit) \<times> remote" where
  "file_delete name w =
     (case nextFault (Delete name) w of
        (Some e, w') \<Rightarrow> (Inl e, w')
      | (None, w') \<Rightarrow>
          if map_of (objects w') name = None then (Inl (httpError 404), w')
          else (Inr (), w'\<lparr>objects := filter (\<lambda>(n, c). n \<noteq> name) (objects w')\<rparr>))"

text \<open>\<^verbatim>\<open>bucket.getFiles({ prefix })\<close>: the names that start with the prefix.\<close>

definition bucket_getFiles :: "string \<Rightarrow> remote \<Rightarrow> (js_error + string list) \<times> remote" where
  "bucket_getFiles prefix w =
     (case nextFault (GetFiles prefix) w of
        (Some e, w') \<Rightarrow> (Inl e, w')
      | (None, w') \<Rightarrow> (Inr (filter (startsWith prefix) (map fst (objects w'))), w'))"


text \<open>A store on which no remote call fails for reasons of its own.\<close>

definition reliable :: "remote \<Rightarrow> bool" where
  "reliable w = (set (faults w) \<subseteq> {None})"

section \<open>Session lock\<close>

text \<open>
  \<^verbatim>\<open>SessionLock\<close> (deploy-commands.md, lines 371 to 433). \<open>sessionsPrefix\<close> is
  \<^verbatim>\<open>CONFIG.sessionsPrefix\<close>, which ends with a slash (line 191).
\<close>

definition lockFile :: "string \<Rightarrow> string" where
  "lockFile sessionsPrefix = sessionsPrefix @ ''lock.json''"

text \<open>\<^verbatim>\<open>releaseLock\<close> (lines 422 to 432): every error of the delete is caught.\<close>

definition releaseLock :: "string \<Rightarrow> remote \<Rightarrow> remote" where
  "releaseLock sessionsPrefix w = snd (file_delete (lockFile sessionsPrefix) w)"

text \<open>
  The lock is the object that the instances of the server contend for, and every remote
  call of \<^verbatim>\<open>acquireLock\<close> is awaited: before each of them other instances may have
  written to the bucket. \<open>others n\<close> lists the writes of other instances that land
  after \<open>n\<close> remote calls are on record and before the next one is served, and \<open>clock n\<close> is
  the value of \<^verbatim>\<open>Date.now()\<close> read at that point.
\<close>

datatype foreign_write = Put string content | Remove string

fun target :: "foreign_write \<Rightarrow> string" where
  "target (Put name c) = name"
| "target (Remove name) = name"

fun applyWrite :: "(string \<times> content) list \<Rightarrow> foreign_write \<Rightarrow> (string \<times> content) list" where
  "applyWrite os (Put name c) = filter (\<lambda>(n, old). n \<noteq> name) os @ [(name, c)]"
| "applyWrite os (Remove name) = filter (\<lambda>(n, old). n \<noteq> name) os"

definition interfere :: "(nat \<Rightarrow> foreign_write list) \<Rightarrow> remote \<Rightarrow> remote" where
  "interfere others w = w\<lparr>objects := foldl applyWrite (objects w) (others (length (calls w)))\<rparr>"

text \<open>The test of line 401, \<^verbatim>\<open>Date.now() - lockData.timestamp > lockData.ttl\<close>.\<close>

definition expired :: "int \<Rightarrow> LockData \<Rightarrow> bool" where
  "expired now lockData = jgt (jsub (Fin (of_int now)) (lockTime lockData)) (ttl lockData)"

text \<open>
  \<^verbatim>\<open>acquireLock\<close> (lines 377 to 420). The function calls itself after breaking a lock, with
  no bound in the code; the first argument bounds the depth of these calls, and \<open>None\<close>
  means that the bound was reached. An error thrown inside the inner \<^verbatim>\<open>try\<close>, also by the
  call of \<^verbatim>\<open>acquireLock\<close> there, is caught by \<^verbatim>\<open>catch (parseError)\<close>, which breaks the lock
  and calls \<^verbatim>\<open>acquireLock\<close> once more; an error of that last call reaches the caller.
\<close>

fun acquireLock ::
  "nat \<Rightarrow> string \<Rightarrow> string \<Rightarrow> (nat \<Rightarrow> int) \<Rightarrow> (nat \<Rightarrow> foreign_write list) \<Rightarrow> remote
     \<Rightarrow> ((js_error + bool) \<times> remote) option" where
  "acquireLock 0 sessionsPrefix me clock others w = None"
| "acquireLock (Suc depth) sessionsPrefix me clock others w =
     (let lockData = \<lparr>instanceId = JStr me, lockTime = Fin (of_int (clock (length (calls w)))),
                       ttl = Fin (of_int CONFIG_lockTtlMs)\<rparr>
      in case file_save_new (lockFile sessionsPrefix) (LockJson lockData) (interfere others w) of
           (Inr ok, w1) \<Rightarrow> Some (Inr True, w1)
         | (Inl error, w1) \<Rightarrow>
             if err_code error = Some 412 then
               (case file_download (lockFile sessionsPrefix) (interfere others w1) of
                  (Inr (LockJson lockData), w2) \<Rightarrow>
                    if expired (clock (length (calls w2))) lockData then
                      (case acquireLock depth sessionsPrefix me clock others
                              (releaseLock sessionsPrefix (interfere others w2)) of
                         None \<Rightarrow> None
                       | Some (Inr acquired, w3) \<Rightarrow> Some (Inr acquired, w3)
                       | Some (Inl parseError, w3) \<Rightarrow>
                           acquireLock depth sessionsPrefix me clock others
                             (releaseLock sessionsPrefix (interfere others w3)))
                    else Some (Inr False, w2)
                | (Inr (Bytes b), w2) \<Rightarrow>
                    acquireLock depth sessionsPrefix me clock others
                      (releaseLock sessionsPrefix (interfere others w2))
                | (Inl parseError, w2) \<Rightarrow>
                    acquireLock depth sessionsPrefix me clock others
                      (releaseLock sessionsPrefix (interfere others w2)))
             else Some (Inl error, w1))"

text \<open>
  What \<^verbatim>\<open>initialize\<close> does with the result (lines 827 to 831 and 850 to 854): with
  \<^verbatim>\<open>false\<close> it logs a warning and goes on; an error is caught by the \<^verbatim>\<open>catch\<close> of
  \<^verbatim>\<open>initialize\<close>, which starts over after 10 seconds.
\<close>

datatype startup = Proceeds | ProceedsWithoutLock | StartsOverIn int

definition initialize_lock :: "js_error + bool \<Rightarrow> startup" where
  "initialize_lock lockAcquired =
     (case lockAcquired of
        Inr True \<Rightarrow> Proceeds
      | Inr False \<Rightarrow> ProceedsWithoutLock
      | Inl error \<Rightarrow> StartsOverIn 10000)"

section \<open>Session store: clear\<close>

text \<open>Deleting the listed files one after the other; the first error ends the loop.\<close>

fun deleteEach :: "string list \<Rightarrow> remote \<Rightarrow> (js_error + unit) \<times> remote" where
  "deleteEach [] w = (Inr (), w)"
| "deleteEach (file # files) w =
     (case file_delete file w of
        (Inl e, w') \<Rightarrow> (Inl e, w')
      | (Inr ok, w') \<Rightarrow> deleteEach files w')"

text \<open>
  The operation \<^verbatim>\<open>clearSessionFromBucket\<close> passes to \<^verbatim>\<open>withRetry\<close> (deploy-commands.md,
  lines 523 to 542): list by prefix, drop the names that end with \<^verbatim>\<open>lock.json\<close>, delete.
\<close>

definition clearSession_operation :: "string \<Rightarrow> remote \<Rightarrow> (js_error + unit) \<times> remote" where
  "clearSession_operation sessionsPrefix w =
     (case bucket_getFiles sessionsPrefix w of
        (Inl e, w') \<Rightarrow> (Inl e, w')
      | (Inr files, w') \<Rightarrow>
          deleteEach (filter (\<lambda>f. \<not> endsWith ''lock.json'' f) files) w')"

definition clearSessionFromBucket ::
  "(int \<Rightarrow> jsnum) \<Rightarrow> string \<Rightarrow> remote \<Rightarrow> (js_error + unit option) \<times> remote \<times> effect list" where
  "clearSessionFromBucket rand sessionsPrefix w =
     withRetry rand (clearSession_operation sessionsPrefix) ''clearSessionFromBucket''
       CONFIG_maxRetries w"

text \<open>
  \<^verbatim>\<open>clearSessionFromBucket\<close> of \<^verbatim>\<open>src/index.js\<close> (lines 188 to 210): nothing is done when no
  bucket is configured; otherwise every listed file is deleted, with no filter.
\<close>

definition clearSession_operation_index :: "string \<Rightarrow> remote \<Rightarrow> (js_error + unit) \<times> remote" where
  "clearSession_operation_index sessionsPrefix w =
     (case bucket_getFiles sessionsPrefix w of
        (Inl e, w') \<Rightarrow> (Inl e, w')
      | (Inr files, w') \<Rightarrow> deleteEach files w')"

definition clearSessionFromBucket_index ::
  "bool \<Rightarrow> string \<Rightarrow> remote \<Rightarrow> (js_error + unit option) \<times> remote \<times> effect list" where
  "clearSessionFromBucket_index bucketConfigured sessionsPrefix w =
     (if \<not> bucketConfigured then
        (Inr None, w, [Logged Info [S ''No bucket configured - skipping session clear''] []])
      else withRetry_index (clearSession_operation_index sessionsPrefix) ''clearSessionFromBucket''
             CONFIG_maxRetries w)"

text \<open>
  The store after a remote call that met no failure of its own: the schedule has moved
  on and the call is recorded.
\<close>

definition served :: "remote_call \<Rightarrow> remote \<Rightarrow> remote" where
  "served c w = w\<lparr>faults := tl (faults w), calls := calls w @ [c]\<rparr>"

text \<open>
  A concrete store: a session file, a lock record written at time 0 with the TTL of
  five minutes, and a session file whose name happens to end with \<^verbatim>\<open>lock.json\<close>. Then a
  record that another instance has just written, a content that is the text \<^verbatim>\<open>{}\<close>, and
  the writes of other instances for concrete runs: none, one to a session file, and a
  create of the lock that lands between the delete and the second create.
\<close>

definition prefix0 :: string where
  "prefix0 = ''sessions/whatsapp-bot/''"

definition oldLock :: LockData where
  "oldLock = \<lparr>instanceId = JStr ''old'', lockTime = Fin 0, ttl = Fin 300000\<rparr>"

definition store0 :: remote where
  "store0 = \<lparr>objects = [(''sessions/whatsapp-bot/creds.json'', Bytes ''creds''),
                         (''sessions/whatsapp-bot/lock.json'', LockJson oldLock),
                         (''sessions/whatsapp-bot/padlock.json'', Bytes ''creds'')],
              faults = [], calls = []\<rparr>"

definition freshLock :: LockData where
  "freshLock = \<lparr>instanceId = JStr ''other'', lockTime = Fin 999000, ttl = Fin 300000\<rparr>"

definition emptyObject :: content where
  "emptyObject = LockJson \<lparr>instanceId = JUndefined, lockTime = NaN, ttl = NaN\<rparr>"

definition nobody :: "nat \<Rightarrow> foreign_write list" where
  "nobody n = []"

definition uploader :: "nat \<Rightarrow> foreign_write list" where
  "uploader n = (if n = 1 then [Put ''sessions/whatsapp-bot/creds.json'' (Bytes ''newer'')] else [])"

definition rival :: "nat \<Rightarrow> foreign_write list" where
  "rival n = (if n = 3 then [Put ''sessions/whatsapp-bot/lock.json'' (LockJson freshLock)] else [])"
section \<open>Session store: upload\<close>

text \<open>
  The local session directory: \<open>None\<close> when it does not exist, else its files by their
  path relative to the directory, as \<^verbatim>\<open>listLocalFiles\<close> returns them.
\<close>

type_synonym directory = "(string \<times> content) list option"




section \<open>Connection manager\<close>

text \<open>
  The argument of the \<^verbatim>\<open>connection.update\<close> handler, as the handler reads it:
  \<^verbatim>\<open>connection\<close>, the error of \<^verbatim>\<open>lastDisconnect\<close> (\<open>None\<close> when \<^verbatim>\<open>lastDisconnect?.error\<close> is
  undefined; a \<^verbatim>\<open>Boom\<close> with its \<^verbatim>\<open>output.statusCode\<close>, or an error of another class) and
  \<^verbatim>\<open>qr\<close>.
\<close>

datatype connection_state = Connecting | Open | Close

datatype disconnect_error = Boom int | NotBoom

record update =
  connection :: "connection_state option"
  lastDisconnect :: "disconnect_error option"
  qr :: "string option"

text \<open>\<^verbatim>\<open>DisconnectReason.loggedOut\<close> of the engine.\<close>

definition DisconnectReason_loggedOut :: int where
  "DisconnectReason_loggedOut = 401"

text \<open>
  The fields of \<^verbatim>\<open>BaileysWhatsAppBot\<close> the handlers read and write, with what they act
  on: the local session directory, the bucket, the delays of the timers set with
  \<^verbatim>\<open>setTimeout\<close> and not yet fired (those of the close branch and those of a failed
  \<^verbatim>\<open>initialize\<close>), and the calls of \<^verbatim>\<open>connectToWhatsApp\<close> made so far, each with the place
  that made it.
\<close>

datatype caller = FromInitialize | FromReconnectTimer

record manager =
  isConnected :: bool
  qrCodeBase64 :: "string option"
  lastQRTime :: int
  isShuttingDown :: bool
  hasSock :: bool
  hasSaveCreds :: bool
  sessionDir :: directory
  bucket :: remote
  reconnectTimers :: "int list"
  initializeTimers :: "int list"
  connectCalls :: "caller list"

text \<open>
  What the environment answers while one handler runs: \<^verbatim>\<open>Date.now()\<close>, the outcome of
  \<^verbatim>\<open>QRCode.toDataURL\<close>, of \<^verbatim>\<open>fs.rm\<close> and \<^verbatim>\<open>fs.mkdir\<close>, of \<^verbatim>\<open>makeWASocket\<close>, of the engine's
  \<^verbatim>\<open>saveCreds\<close> (the directory it leaves) and of \<^verbatim>\<open>sock.end()\<close>, the values of
  \<^verbatim>\<open>Math.random()\<close>, and the outcome of the steps of \<^verbatim>\<open>initialize\<close> that come before the
  connection (see there).
\<close>

datatype progress = Completed | Threw js_error | Pending

record moment =
  dateNow :: int
  toDataURL :: "js_error + string"
  rmError :: "js_error option"
  mkdirError :: "js_error option"
  makeWASocketError :: "js_error option"
  saveCreds :: "directory \<Rightarrow> js_error + directory"
  sockEndError :: "js_error option"
  mathRandom :: "int \<Rightarrow> jsnum"
  startupSteps :: "directory \<Rightarrow> remote \<Rightarrow> progress \<times> directory \<times> remote"

text \<open>
  The block \<^verbatim>\<open>if (qr) { ... }\<close> (index.js, lines 468 to 493). \<open>None\<close> is the \<^verbatim>\<open>return\<close> of
  the debounce, which ends the handler; otherwise the state with which the handler goes
  on. An empty string is not truthy.
\<close>

definition pairingChallenge :: "moment \<Rightarrow> update \<Rightarrow> manager \<Rightarrow> manager option" where
  "pairingChallenge env u m =
     (case qr u of
        None \<Rightarrow> Some m
      | Some code \<Rightarrow>
          if code = [] then Some m
          else if dateNow env - lastQRTime m < CONFIG_qrDebounceMs then None
          else
            (let m1 = m\<lparr>lastQRTime := dateNow env\<rparr>
             in (case toDataURL env of
                   Inr dataUrl \<Rightarrow> Some (m1\<lparr>qrCodeBase64 := Some dataUrl\<rparr>)
                 | Inl error \<Rightarrow> Some m1)))"

text \<open>
  \<^verbatim>\<open>fs.rm\<close> then \<^verbatim>\<open>fs.mkdir\<close> inside one \<^verbatim>\<open>try\<close> (lines 511 to 516): an error of either is
  caught and logged. A failing \<^verbatim>\<open>fs.rm\<close> is taken to leave the directory as it was.
\<close>

definition clearLocalSession :: "moment \<Rightarrow> directory \<Rightarrow> directory" where
  "clearLocalSession env dir =
     (case rmError env of
        Some error \<Rightarrow> dir
      | None \<Rightarrow> (case mkdirError env of Some error \<Rightarrow> None | None \<Rightarrow> Some []))"

text \<open>The last \<^verbatim>\<open>if\<close> of the close branch (lines 522 to 531).\<close>

definition scheduleReconnect :: "bool \<Rightarrow> manager \<Rightarrow> manager" where
  "scheduleReconnect shouldReconnect m =
     (if shouldReconnect \<and> \<not> isShuttingDown m
      then m\<lparr>reconnectTimers := reconnectTimers m @ [5000]\<rparr> else m)"

text \<open>
  The \<^verbatim>\<open>connection.update\<close> handler (index.js, lines 465 to 547; deploy-commands.md, lines
  887 to 968: the same text). \<open>clearSession\<close> is the \<^verbatim>\<open>clearSessionFromBucket\<close> of the entry
  point. The first component is the error with which the handler's promise rejects, if
  any: only \<^verbatim>\<open>clearSessionFromBucket\<close> is awaited outside a \<^verbatim>\<open>try\<close>.
\<close>

definition connection_update ::
  "(remote \<Rightarrow> (js_error + unit option) \<times> remote \<times> effect list) \<Rightarrow> moment \<Rightarrow> update \<Rightarrow> manager
     \<Rightarrow> js_error option \<times> manager" where
  "connection_update clearSession env u m =
     (case pairingChallenge env u m of
        None \<Rightarrow> (None, m)
      | Some m1 \<Rightarrow>
          (case connection u of
             Some Close \<Rightarrow>
               (let m2 = m1\<lparr>isConnected := False, qrCodeBase64 := None\<rparr>;
                    shouldReconnect =
                      (case lastDisconnect u of
                         Some (Boom statusCode) \<Rightarrow> statusCode \<noteq> DisconnectReason_loggedOut
                       | Some NotBoom \<Rightarrow> True
                       | None \<Rightarrow> True)
                in if lastDisconnect u = Some (Boom DisconnectReason_loggedOut) then
                     (let m3 = m2\<lparr>sessionDir := clearLocalSession env (sessionDir m2)\<rparr>
                      in (case clearSession (bucket m3) of
                            (Inl error, b, effs) \<Rightarrow> (Some error, m3\<lparr>bucket := b\<rparr>)
                          | (Inr done, b, effs) \<Rightarrow>
                              (None, scheduleReconnect shouldReconnect (m3\<lparr>bucket := b\<rparr>))))
                   else (None, scheduleReconnect shouldReconnect m2))
           | Some Open \<Rightarrow> (None, m1\<lparr>isConnected := True, qrCodeBase64 := None\<rparr>)
           | Some Connecting \<Rightarrow> (None, m1)
           | None \<Rightarrow> (None, m1)))"

text \<open>
  \<^verbatim>\<open>connectToWhatsApp\<close> (index.js, lines 438 to 458; deploy-commands.md, lines 860 to 882):
  \<^verbatim>\<open>makeWASocket\<close>, whose error is logged and thrown again. The function tests no flag.
  The first argument names the place of the call, for the record of calls.
\<close>

definition connectToWhatsApp :: "caller \<Rightarrow> moment \<Rightarrow> manager \<Rightarrow> js_error option \<times> manager" where
  "connectToWhatsApp place env m =
     (let m1 = m\<lparr>connectCalls := connectCalls m @ [place]\<rparr>
      in (case makeWASocketError env of
            Some error \<Rightarrow> (Some error, m1)
          | None \<Rightarrow> (None, m1\<lparr>hasSock := True\<rparr>)))"

text \<open>
  The callback of the reconnect timer (lines 524 to 530): it tests the flag again, then
  calls \<^verbatim>\<open>connectToWhatsApp\<close>, whose error it logs.
\<close>

definition reconnectTimer :: "moment \<Rightarrow> manager \<Rightarrow> manager" where
  "reconnectTimer env m =
     (case reconnectTimers m of
        [] \<Rightarrow> m
      | delay # pending \<Rightarrow>
          (let m1 = m\<lparr>reconnectTimers := pending\<rparr>
           in if \<not> isShuttingDown m1 then snd (connectToWhatsApp FromReconnectTimer env m1)
              else m1))"

text \<open>
  \<^verbatim>\<open>initialize\<close> (index.js, lines 403 to 433; deploy-commands.md, lines 817 to 855). The
  steps before the connection (the session lock in the production server, the session
  directory, the download of the session, the auth state) write the session directory
  and the bucket and nothing else of the manager; \<open>startupSteps\<close> gives what they leave
  there and how they end: completed, with an error thrown, or still waiting for a remote
  call (\<^verbatim>\<open>acquireLock\<close> has no bound). When they complete, \<^verbatim>\<open>saveCreds\<close> is set and
  \<^verbatim>\<open>connectToWhatsApp\<close> is called. The \<^verbatim>\<open>catch\<close> sets a timer of 10 seconds whose callback
  is \<^verbatim>\<open>initialize\<close> again; neither tests \<^verbatim>\<open>isShuttingDown\<close>.
\<close>

definition initialize :: "moment \<Rightarrow> manager \<Rightarrow> manager" where
  "initialize env m =
     (case startupSteps env (sessionDir m) (bucket m) of
        (Pending, dir, b) \<Rightarrow> m\<lparr>sessionDir := dir, bucket := b\<rparr>
      | (Threw error, dir, b) \<Rightarrow>
          m\<lparr>sessionDir := dir, bucket := b, initializeTimers := initializeTimers m @ [10000]\<rparr>
      | (Completed, dir, b) \<Rightarrow>
          (case connectToWhatsApp FromInitialize env
                  (m\<lparr>sessionDir := dir, bucket := b, hasSaveCreds := True\<rparr>) of
             (Some error, m1) \<Rightarrow> m1\<lparr>initializeTimers := initializeTimers m1 @ [10000]\<rparr>
           | (None, m1) \<Rightarrow> m1))"

text \<open>The callback of the timer of \<^verbatim>\<open>initialize\<close> (index.js, line 431): \<^verbatim>\<open>() => this.initialize()\<close>.\<close>

definition initializeTimer :: "moment \<Rightarrow> manager \<Rightarrow> manager" where
  "initializeTimer env m =
     (case initializeTimers m of
        [] \<Rightarrow> m
      | delay # pending \<Rightarrow> initialize env (m\<lparr>initializeTimers := pending\<rparr>))"




text \<open>
  The manager as a machine: the events that reach it and the state each leaves: the call
  of \<^verbatim>\<open>initialize\<close> at the start of the process, an update of the connection, a timer of
  either kind that fires, a shutdown. A rejection of the update handler is logged by the
  process and changes nothing more. \<open>stop\<close> is the \<^verbatim>\<open>shutdown\<close> of the entry point. Events
  that follow a shutdown are those that reach the manager while \<^verbatim>\<open>shutdown\<close> awaits and
  before the process exits.
\<close>

datatype event =
    Initialize moment
  | InitializeTimer moment
  | ConnectionUpdate moment update
  | ReconnectTimer moment
  | Shutdown moment

fun step ::
  "(remote \<Rightarrow> (js_error + unit option) \<times> remote \<times> effect list) \<Rightarrow> (moment \<Rightarrow> manager \<Rightarrow> manager)
     \<Rightarrow> event \<Rightarrow> manager \<Rightarrow> manager" where
  "step clearSession stop (Initialize env) m = initialize env m"
| "step clearSession stop (InitializeTimer env) m = initializeTimer env m"
| "step clearSession stop (ConnectionUpdate env u) m = snd (connection_update clearSession env u m)"
| "step clearSession stop (ReconnectTimer env) m = reconnectTimer env m"
| "step clearSession stop (Shutdown env) m = stop env m"

fun run ::
  "(remote \<Rightarrow> (js_error + unit option) \<times> remote \<times> effect list) \<Rightarrow> (moment \<Rightarrow> manager \<Rightarrow> manager)
     \<Rightarrow> event list \<Rightarrow> manager \<Rightarrow> manager" where
  "run clearSession stop [] m = m"
| "run clearSession stop (e # es) m = run clearSession stop es (step clearSession stop e m)"

text \<open>
  Concrete values: a quiet environment at time 1000000, one in which \<^verbatim>\<open>makeWASocket\<close>
  throws, one in which the bucket cannot be reached during the start, a manager that is
  paired, and the manager of a process that has just started.
\<close>

definition calm :: moment where
  "calm = \<lparr>dateNow = 1000000, toDataURL = Inr ''data:image/png;base64,NEW'', rmError = None,
            mkdirError = None, makeWASocketError = None, saveCreds = (\<lambda>dir. Inr dir),
            sockEndError = None, mathRandom = (\<lambda>k. Fin 0),
            startupSteps = (\<lambda>dir b. (Completed, dir, b))\<rparr>"

definition paired :: manager where
  "paired = \<lparr>isConnected = True, qrCodeBase64 = Some ''data:image/png;base64,OLD'',
              lastQRTime = 0, isShuttingDown = False, hasSock = True, hasSaveCreds = True,
              sessionDir = Some [(''creds.json'', Bytes ''creds'')], bucket = store0,
              reconnectTimers = [], initializeTimers = [], connectCalls = []\<rparr>"

definition closeEvent :: "disconnect_error option \<Rightarrow> update" where
  "closeEvent reason = \<lparr>connection = Some Close, lastDisconnect = reason, qr = None\<rparr>"

definition challengeEvent :: "string \<Rightarrow> update" where
  "challengeEvent code = \<lparr>connection = None, lastDisconnect = None, qr = Some code\<rparr>"



section \<open>HTTP surface: POST /send-message\<close>

text \<open>
  Reading a property of \<^verbatim>\<open>req.body\<close> in \<^verbatim>\<open>const { to, message } = req.body\<close>: on
  \<^verbatim>\<open>undefined\<close> and \<^verbatim>\<open>null\<close> the destructuring throws; an object gives the value stored
  under the key (the last one, if the JSON text repeats the key) or \<^verbatim>\<open>undefined\<close>; any
  other value has no such property.
\<close>

fun property :: "string \<Rightarrow> jsval \<Rightarrow> js_error + jsval" where
  "property k JUndefined =
     Inl \<lparr>err_message = ''Cannot destructure property of req.body'', err_code = None\<rparr>"
| "property k JNull =
     Inl \<lparr>err_message = ''Cannot destructure property of req.body'', err_code = None\<rparr>"
| "property k (JObj kvs) = Inr (case map_of (rev kvs) k of None \<Rightarrow> JUndefined | Some v \<Rightarrow> v)"
| "property k v = Inr JUndefined"

record response =
  status :: int
  body :: "(string \<times> jsval) list"

definition failure :: "int \<Rightarrow> string \<Rightarrow> response" where
  "failure code reason = \<lparr>status = code, body = [(''success'', JBool False), (''error'', JStr reason)]\<rparr>"

text \<open>The \<^verbatim>\<open>catch\<close> of the endpoint: status 500 with \<^verbatim>\<open>error.message || 'Failed to send message'\<close>.\<close>

definition caught :: "js_error \<Rightarrow> response" where
  "caught error =
     failure 500 (if err_message error = [] then ''Failed to send message'' else err_message error)"

text \<open>
  The endpoint of the production server (deploy-commands.md, lines 734 to 776). \<open>isoTime\<close> is
  \<^verbatim>\<open>new Date().toISOString()\<close>, \<open>now\<close> is \<^verbatim>\<open>Date.now()\<close>, \<open>up\<close> is \<^verbatim>\<open>this.isConnected\<close> and
  \<open>sock\<close> tells whether \<^verbatim>\<open>this.sock\<close> is set. The result is the response, the queue as
  \<^verbatim>\<open>enqueue\<close> leaves it, and whether this call of \<^verbatim>\<open>enqueue\<close> started \<^verbatim>\<open>processQueue\<close>, which
  then takes the first item.
\<close>

definition send_message ::
  "string \<Rightarrow> int \<Rightarrow> jsval \<Rightarrow> bool \<Rightarrow> bool \<Rightarrow> MessageQueue \<Rightarrow> response \<times> MessageQueue \<times> bool" where
  "send_message isoTime now reqBody up sock mq =
     (case property ''to'' reqBody of
        Inl error \<Rightarrow> (caught error, mq, False)
      | Inr to' \<Rightarrow>
          (case property ''message'' reqBody of
             Inl error \<Rightarrow> (caught error, mq, False)
           | Inr message' \<Rightarrow>
               if \<not> truthy to' \<or> \<not> truthy message' then
                 (failure 400 ''Missing required fields: to, message'', mq, False)
               else if \<not> up \<or> \<not> sock then
                 (failure 503 ''WhatsApp not connected. Please scan QR code first.'', mq, False)
               else
                 (case enqueue to' message' 3 now mq of
                    (Inl error, mq', started) \<Rightarrow> (caught error, mq', started)
                  | (Inr False, mq', started) \<Rightarrow>
                      (failure 503 ''Message queue full. Please try again later.'', mq', started)
                  | (Inr True, mq', started) \<Rightarrow>
                      (case asString ''phoneNumber.replace'' to' of
                         Inl error \<Rightarrow> (caught error, mq', started)
                       | Inr phoneNumber \<Rightarrow>
                           (\<lparr>status = 200,
                             body = [(''success'', JBool True), (''queued'', JBool True),
                                     (''to'', JStr (toWhatsAppJID phoneNumber)),
                                     (''timestamp'', JStr isoTime)]\<rparr>,
                            mq', started)))))"

text \<open>
  \<^verbatim>\<open>BaileysWhatsAppBot.sendMessage\<close> of \<^verbatim>\<open>src/index.js\<close> (lines 605 to 627): the recipient is
  normalised and the preview of the text is taken before the engine is called.
\<close>

definition bot_sendMessage ::
  "bool \<Rightarrow> bool \<Rightarrow> (string \<Rightarrow> jsval \<Rightarrow> js_error + string) \<Rightarrow> jsval \<Rightarrow> jsval \<Rightarrow> js_error + string" where
  "bot_sendMessage up sock engine to' message' =
     (if \<not> up \<or> \<not> sock then Inl \<lparr>err_message = ''WhatsApp not connected'', err_code = None\<rparr>
      else (case asString ''phoneNumber.replace'' to' of
              Inl error \<Rightarrow> Inl error
            | Inr phoneNumber \<Rightarrow>
                (case asString ''message.substring'' message' of
                   Inl error \<Rightarrow> Inl error
                 | Inr preview \<Rightarrow> engine (toWhatsAppJID phoneNumber) message')))"

text \<open>The endpoint of \<^verbatim>\<open>src/index.js\<close> (lines 341 to 375): the message is sent at once.\<close>

definition send_message_index ::
  "string \<Rightarrow> jsval \<Rightarrow> bool \<Rightarrow> bool \<Rightarrow> (string \<Rightarrow> jsval \<Rightarrow> js_error + string) \<Rightarrow> response" where
  "send_message_index isoTime reqBody up sock engine =
     (case property ''to'' reqBody of
        Inl error \<Rightarrow> caught error
      | Inr to' \<Rightarrow>
          (case property ''message'' reqBody of
             Inl error \<Rightarrow> caught error
           | Inr message' \<Rightarrow>
               if \<not> truthy to' \<or> \<not> truthy message' then
                 failure 400 ''Missing required fields: to, message''
               else if \<not> up \<or> \<not> sock then
                 failure 503 ''WhatsApp not connected. Please scan QR code first.''
               else
                 (case bot_sendMessage up sock engine to' message' of
                    Inl error \<Rightarrow> caught error
                  | Inr messageId \<Rightarrow>
                      (case asString ''phoneNumber.replace'' to' of
                         Inl error \<Rightarrow> caught error
                       | Inr phoneNumber \<Rightarrow>
                           \<lparr>status = 200,
                            body = [(''success'', JBool True), (''messageId'', JStr messageId),
                                    (''to'', JStr (toWhatsAppJID phoneNumber)),
                                    (''timestamp'', JStr isoTime)]\<rparr>))))"

text \<open>Concrete requests: the one of the endpoint test, and one whose recipient is a number.\<close>

definition testRequest :: jsval where
  "testRequest = JObj [(''to'', JStr ''+5511999999999''), (''message'', JStr ''Test'')]"

definition numberRequest :: jsval where
  "numberRequest = JObj [(''to'', JNum 5511999999999), (''message'', JStr ''Test'')]"

definition idle :: MessageQueue where
  "idle = \<lparr>queue = [], processing = False\<rparr>"

section \<open>Theorems\<close>

subsection \<open>Recipient normalisation\<close>

lemma filter_isDigit_suffix: "filter isDigit ''@s.whatsapp.net'' = []"
  by (simp add: isDigit_def)

lemma at_not_digit: "CHR ''@'' \<notin> set (filter isDigit s)"
  by (auto simp: isDigit_def)

lemma toWhatsAppJID_eq:
  "toWhatsAppJID s =
     (if \<not> startsWith ''55'' (filter isDigit s) \<and> length (filter isDigit s) \<le> 11
      then ''55'' @ filter isDigit s else filter isDigit s) @ ''@s.whatsapp.net''"
  using at_not_digit [of s] by (auto simp: toWhatsAppJID_def Let_def isDigit_def)

lemma digits_55: "filter isDigit ''55'' = ''55''"
  by (simp add: isDigit_def)

lemma filter_digits_jid:
  "filter isDigit (d @ ''@s.whatsapp.net'') = filter isDigit d"
  by (simp only: filter_append filter_isDigit_suffix append_Nil2)

lemma filter_isDigit_55: "filter isDigit (''55'' @ d) = ''55'' @ filter isDigit d"
  by (simp only: filter_append digits_55)

text \<open>
  C9. \<^verbatim>\<open>toWhatsAppJID\<close> is idempotent on strings, and every result ends with
  \<^verbatim>\<open>@s.whatsapp.net\<close>.
\<close>

theorem toWhatsAppJID_idempotent:
  "toWhatsAppJID (toWhatsAppJID s) = toWhatsAppJID s
   \<and> endsWith ''@s.whatsapp.net'' (toWhatsAppJID s)"
proof -
  define d where "d = filter isDigit s"
  define f where "f = (if \<not> startsWith ''55'' d \<and> length d \<le> 11 then ''55'' @ d else d)"
  have f: "toWhatsAppJID s = f @ ''@s.whatsapp.net''"
    unfolding f_def d_def by (rule toWhatsAppJID_eq)
  have dd: "filter isDigit d = d"
    unfolding d_def by simp
  have ff: "filter isDigit f = f"
    unfolding f_def using dd by (simp only: filter_isDigit_55 if_distrib [of "filter isDigit"] )
  have clean: "filter isDigit (f @ ''@s.whatsapp.net'') = f"
    by (simp only: filter_digits_jid ff)
  have stable: "startsWith ''55'' f \<or> 11 < length f"
    unfolding f_def by (auto simp: startsWith_def)
  have again: "toWhatsAppJID (f @ ''@s.whatsapp.net'') = f @ ''@s.whatsapp.net''"
    unfolding toWhatsAppJID_eq [of "f @ ''@s.whatsapp.net''"] clean
  proof -
    have "\<not> (\<not> startsWith ''55'' f \<and> length f \<le> 11)"
      using stable by linarith
    then show "(if \<not> startsWith ''55'' f \<and> length f \<le> 11 then ''55'' @ f else f) @ ''@s.whatsapp.net''
                 = f @ ''@s.whatsapp.net''"
      by (simp only: if_False)
  qed
  have ends: "endsWith ''@s.whatsapp.net'' (f @ ''@s.whatsapp.net'')"
    by (simp add: endsWith_def)
  show ?thesis
    unfolding f using again ends by (simp only: simp_thms)
qed

subsection \<open>Numbers\<close>

text \<open>The rounding is monotone and leaves a double as it is.\<close>

lemma two_to_powr: "two_to e = 2 powr (real_of_int e)"
  by (simp add: two_to_def powr_int)

lemma two_to_pos [simp]: "0 < two_to e"
  by (simp add: two_to_powr)

lemma two_to_add: "two_to (a + b) = two_to a * two_to b"
  by (simp add: two_to_powr powr_add)

lemma two_to_diff: "two_to (a - b) = two_to a / two_to b"
  by (simp add: two_to_powr powr_diff)

lemma two_to_mono: "a \<le> b \<Longrightarrow> two_to a \<le> two_to b"
  by (simp add: two_to_powr)

lemma two_to_less_iff: "two_to a < two_to b \<longleftrightarrow> a < b"
  by (simp add: two_to_powr)

lemma two_to_nat: "0 \<le> e \<Longrightarrow> two_to e = 2 ^ nat e"
  by (simp add: two_to_def)

lemma rne_of_int [simp]: "rne (of_int z) = z"
  by (simp add: rne_def)

lemma rne_bounds: "\<lfloor>x\<rfloor> \<le> rne x \<and> rne x \<le> \<lfloor>x\<rfloor> + 1"
  by (simp add: rne_def Let_def)

lemma rne_mono:
  assumes "x \<le> y"
  shows "rne x \<le> rne y"
proof (cases "\<lfloor>x\<rfloor> = \<lfloor>y\<rfloor>")
  case True
  with assms have "x - of_int \<lfloor>x\<rfloor> \<le> y - of_int \<lfloor>y\<rfloor>" by simp
  with True show ?thesis by (auto simp: rne_def Let_def)
next
  case False
  with assms have "\<lfloor>x\<rfloor> < \<lfloor>y\<rfloor>" using floor_mono [of x y] by linarith
  then have "rne x \<le> \<lfloor>y\<rfloor>" using rne_bounds [of x] by linarith
  then show ?thesis using rne_bounds [of y] by linarith
qed

lemma ilog2_bounds:
  assumes "0 < x"
  shows "two_to (ilog2 x) \<le> x \<and> x < two_to (ilog2 x + 1)"
proof (cases "1 \<le> x")
  case True
  define n where "n = \<lfloor>x\<rfloor>"
  have n: "0 < n" "of_int n \<le> x" "x < of_int n + 1"
    using True by (simp_all add: n_def)
  from bitlen_bounds [OF n(1)] have b: "2 ^ nat (bitlen n - 1) \<le> n" "n < 2 ^ nat (bitlen n)"
    by simp_all
  have pos: "1 \<le> bitlen n" using n(1) by (simp add: bitlen_alt_def)
  have "two_to (bitlen n - 1) = of_int (2 ^ nat (bitlen n - 1))"
    using pos by (simp add: two_to_nat)
  also have "\<dots> \<le> of_int n" using b(1) by (simp only: of_int_le_iff)
  finally have lo: "two_to (bitlen n - 1) \<le> x" using n(2) by linarith
  have "n + 1 \<le> 2 ^ nat (bitlen n)" using b(2) by simp
  then have "real_of_int (n + 1) \<le> of_int (2 ^ nat (bitlen n))" by (simp only: of_int_le_iff)
  then have "x < two_to (bitlen n)" using n(3) pos by (simp add: two_to_nat)
  with lo show ?thesis using True by (simp add: ilog2_def n_def)
next
  case False
  define y where "y = 1 / x"
  define m where "m = \<lceil>y\<rceil> - 1"
  have y: "1 < y" using False assms by (simp add: y_def)
  have m: "0 < m" "of_int m < y" "y \<le> of_int m + 1"
    using y by (simp_all add: m_def) linarith+
  from bitlen_bounds [OF m(1)] have b: "2 ^ nat (bitlen m - 1) \<le> m" "m < 2 ^ nat (bitlen m)"
    by simp_all
  have pos: "1 \<le> bitlen m" using m(1) by (simp add: bitlen_alt_def)
  have "two_to (bitlen m - 1) = of_int (2 ^ nat (bitlen m - 1))"
    using pos by (simp add: two_to_nat)
  also have "\<dots> \<le> of_int m" using b(1) by (simp only: of_int_le_iff)
  finally have lo: "two_to (bitlen m - 1) < y" using m(2) by linarith
  have "m + 1 \<le> 2 ^ nat (bitlen m)" using b(2) by simp
  then have "real_of_int (m + 1) \<le> of_int (2 ^ nat (bitlen m))" by (simp only: of_int_le_iff)
  then have hi: "y \<le> two_to (bitlen m)" using m(3) pos by (simp add: two_to_nat)
  have x: "x = 1 / y" using assms by (simp add: y_def)
  have inv: "two_to (- e) = 1 / two_to e" for e
    using two_to_diff [of 0 e] by (simp add: two_to_def)
  have "two_to (- bitlen m) \<le> x"
    using hi y unfolding x inv by (simp add: frac_le)
  moreover have "x < two_to (- bitlen m + 1)"
  proof -
    have "1 / y < 1 / two_to (bitlen m - 1)"
      using lo by (simp add: frac_less2)
    then show ?thesis using inv [of "bitlen m - 1"] by (simp add: x)
  qed
  ultimately show ?thesis using False by (simp add: ilog2_def y_def m_def)
qed

lemma ilog2_mono:
  assumes "0 < x" "x \<le> y"
  shows "ilog2 x \<le> ilog2 y"
proof (rule ccontr)
  assume "\<not> ilog2 x \<le> ilog2 y"
  then have "ilog2 y + 1 \<le> ilog2 x" by simp
  then have "two_to (ilog2 y + 1) \<le> two_to (ilog2 x)" by (rule two_to_mono)
  with ilog2_bounds [of x] ilog2_bounds [of y] assms show False by linarith
qed

lemma ilog2_unique:
  assumes "two_to e \<le> x" "x < two_to (e + 1)"
  shows "ilog2 x = e"
proof -
  have pos: "0 < x" using assms(1) two_to_pos [of e] by linarith
  have "two_to (ilog2 x) < two_to (e + 1)" using ilog2_bounds [OF pos] assms by linarith
  moreover have "two_to e < two_to (ilog2 x + 1)" using ilog2_bounds [OF pos] assms by linarith
  ultimately show ?thesis by (simp add: two_to_less_iff)
qed

lemma quantum_pos [simp]: "0 < quantum x"
  by (simp add: quantum_def)

lemma quantum_nonneg [simp]: "0 \<le> quantum x"
  by (rule less_imp_le) simp

lemma quantum_nonzero [simp]: "quantum x \<noteq> 0"
  using quantum_pos [of x] by linarith

lemma nearest_mono:
  assumes "0 < x" "x \<le> y"
  shows "nearest x \<le> nearest y"
proof -
  define ex where "ex = max (ilog2 x) (- 1022)"
  define ey where "ey = max (ilog2 y) (- 1022)"
  have le: "ex \<le> ey" using ilog2_mono [OF assms] by (simp add: ex_def ey_def)
  have qx: "quantum x = two_to (ex - 52)" and qy: "quantum y = two_to (ey - 52)"
    by (simp_all add: quantum_def ex_def ey_def)
  show ?thesis
  proof (cases "ex = ey")
    case True
    then have "quantum x = quantum y" by (simp add: qx qy)
    moreover have "x / quantum y \<le> y / quantum y"
      using assms(2) by (rule divide_right_mono) simp
    ultimately show ?thesis
      using rne_mono [of "x / quantum y" "y / quantum y"]
      by (simp add: nearest_def mult_right_mono)
  next
    case False
    with le have lt: "ex < ey" by simp
    then have ey: "ey = ilog2 y" by (auto simp: ex_def ey_def)
    have ypos: "0 < y" using assms by linarith
    have "x < two_to (ilog2 x + 1)" using ilog2_bounds [OF assms(1)] by simp
    also have "\<dots> \<le> two_to (ex + 1)" by (rule two_to_mono) (simp add: ex_def)
    finally have "x / quantum x < two_to (ex + 1) / quantum x"
      by (simp add: divide_strict_right_mono)
    also have "\<dots> = two_to 53" unfolding qx using two_to_diff [of "ex + 1" "ex - 52"] by simp
    finally have "x / quantum x \<le> of_int (2 ^ 53)" by (simp add: two_to_def)
    from rne_mono [OF this] have "rne (x / quantum x) \<le> 2 ^ 53"
      using rne_of_int [of "2 ^ 53"] by simp
    then have "real_of_int (rne (x / quantum x)) \<le> of_int (2 ^ 53)" by (simp only: of_int_le_iff)
    then have "nearest x \<le> two_to 53 * quantum x"
      by (simp add: nearest_def two_to_def mult_right_mono)
    also have "\<dots> = two_to (ex + 1)" unfolding qx using two_to_add [of 53 "ex - 52"] by (simp add: add.commute)
    also have "\<dots> \<le> two_to ey" by (rule two_to_mono) (use lt in simp)
    finally have a: "nearest x \<le> two_to ey" .
    have "two_to ey \<le> y" using ilog2_bounds [OF ypos] by (simp add: ey)
    then have "two_to ey / quantum y \<le> y / quantum y"
      by (rule divide_right_mono) simp
    moreover have "two_to ey / quantum y = two_to 52"
      unfolding qy using two_to_diff [of ey "ey - 52"] by simp
    ultimately have "of_int (2 ^ 52) \<le> y / quantum y" by (simp add: two_to_def)
    from rne_mono [OF this] have "2 ^ 52 \<le> rne (y / quantum y)"
      using rne_of_int [of "2 ^ 52"] by simp
    then have "real_of_int (2 ^ 52) \<le> of_int (rne (y / quantum y))" by (simp only: of_int_le_iff)
    then have "two_to 52 * quantum y \<le> nearest y"
      by (simp add: nearest_def two_to_def mult_right_mono)
    moreover have "two_to 52 * quantum y = two_to ey"
      unfolding qy using two_to_add [of 52 "ey - 52"] by simp
    ultimately show ?thesis using a by linarith
  qed
qed

lemma nearest_exact:
  assumes "0 < m" "m < 2 ^ 53" "- 1074 \<le> n"
  shows "nearest (of_int m * two_to n) = of_int m * two_to n"
proof -
  define x where "x = of_int m * two_to n"
  have pos: "0 < x" using assms(1) by (simp add: x_def)
  define e where "e = max (ilog2 x) (- 1022)"
  have "real_of_int m < of_int (2 ^ 53)" using assms(2) by (simp only: of_int_less_iff)
  then have "real_of_int m * two_to n < of_int (2 ^ 53) * two_to n"
    by (rule mult_strict_right_mono) simp
  moreover have "real_of_int (2 ^ 53) = two_to 53" by (simp add: two_to_def)
  ultimately have "x < two_to 53 * two_to n" by (simp only: x_def)
  also have "\<dots> = two_to (n + 53)" using two_to_add [of 53 n] by (simp add: add.commute)
  finally have "two_to (ilog2 x) < two_to (n + 53)" using ilog2_bounds [OF pos] by linarith
  then have "ilog2 x < n + 53" by (simp add: two_to_less_iff)
  then have k: "0 \<le> n - e + 52" using assms(3) by (simp add: e_def)
  have q: "quantum x = two_to (e - 52)" by (simp add: quantum_def e_def)
  have "two_to n / two_to (e - 52) = two_to (n - e + 52)"
    using two_to_diff [of n "e - 52"] by (simp add: algebra_simps)
  also have "\<dots> = of_int (2 ^ nat (n - e + 52))" using k by (simp add: two_to_nat)
  finally have "of_int m * (two_to n / two_to (e - 52)) = of_int (m * 2 ^ nat (n - e + 52))"
    by simp
  moreover have "x / quantum x = of_int m * (two_to n / two_to (e - 52))"
    unfolding q by (simp add: x_def)
  ultimately have "x / quantum x = of_int (m * 2 ^ nat (n - e + 52))"
    by (simp only:)
  then have "rne (x / quantum x) = m * 2 ^ nat (n - e + 52)" by (simp only: rne_of_int)
  then have "nearest x = x / quantum x * quantum x"
    using \<open>x / quantum x = of_int (m * 2 ^ nat (n - e + 52))\<close> by (simp only: nearest_def)
  moreover have "quantum x \<noteq> 0" by simp
  ultimately have "nearest x = x" by simp
  then show ?thesis by (simp only: x_def)
qed

lemma nearest_nonneg: "0 < x \<Longrightarrow> 0 \<le> nearest x"
proof -
  assume "0 < x"
  then have "0 \<le> x / quantum x" by simp
  from rne_mono [OF this] have "0 \<le> rne (x / quantum x)"
    using rne_of_int [of 0] by simp
  then show ?thesis by (simp add: nearest_def)
qed

lemma fl_pos: "0 < x \<Longrightarrow> fl x = (if two_to 1024 \<le> nearest x then PosInf else Fin (nearest x))"
  by (simp add: fl_def)

lemma fl_nonneg:
  assumes "0 \<le> x" "fl x = Fin a"
  shows "0 \<le> a"
proof (cases "x = 0")
  case True
  with assms show ?thesis by (simp add: fl_def)
next
  case False
  with assms have "0 < x" by simp
  with assms(2) nearest_nonneg [of x] show ?thesis
    by (auto simp: fl_pos split: if_splits)
qed

lemma fl_le:
  assumes "0 \<le> x" "x \<le> y" "fl y = Fin b"
  shows "\<exists>a. fl x = Fin a \<and> 0 \<le> a \<and> a \<le> b"
proof (cases "x = 0")
  case True
  moreover have "0 \<le> b" using assms fl_nonneg [of y b] by simp
  ultimately show ?thesis by (simp add: fl_def)
next
  case False
  with assms have pos: "0 < x" "0 < y" by simp_all
  from assms(3) pos(2) have y: "nearest y = b" "\<not> two_to 1024 \<le> nearest y"
    by (auto simp: fl_pos split: if_splits)
  from nearest_mono [OF pos(1) assms(2)] y have "fl x = Fin (nearest x)" "nearest x \<le> b"
    using pos(1) by (auto simp: fl_pos)
  then show ?thesis using nearest_nonneg [OF pos(1)] by simp
qed

lemma fl_ge:
  assumes "0 < x" "x \<le> y" "fl x = Fin a"
  shows "fl y = PosInf \<or> (\<exists>b. fl y = Fin b \<and> a \<le> b)"
proof -
  have pos: "0 < y" using assms by linarith
  from assms(1,3) have "nearest x = a" by (auto simp: fl_pos split: if_splits)
  with nearest_mono [OF assms(1,2)] show ?thesis using pos by (auto simp: fl_pos)
qed

lemma fl_exact:
  assumes "0 < m" "m < 2 ^ 53" "- 1074 \<le> n" "of_int m * two_to n < two_to 1024"
  shows "fl (of_int m * two_to n) = Fin (of_int m * two_to n)"
proof -
  have "0 < real_of_int m * two_to n" using assms(1) by simp
  then show ?thesis using nearest_exact [OF assms(1-3)] assms(4) by (simp add: fl_pos)
qed

lemma fl_of_int:
  assumes "\<bar>z\<bar> < 2 ^ 53"
  shows "fl (of_int z) = Fin (of_int z)"
proof -
  have big: "(2::real) ^ 53 < two_to 1024" by (simp add: two_to_def)
  consider "z = 0" | "0 < z" | "z < 0" by linarith
  then show ?thesis
  proof cases
    case 1
    then show ?thesis by (simp add: fl_def)
  next
    case 2
    with assms have "z < 2 ^ 53" by simp
    then have "real_of_int z < of_int (2 ^ 53)" by (simp only: of_int_less_iff)
    then have "of_int z * two_to 0 < two_to 1024" using big by (simp add: two_to_def)
    from fl_exact [OF 2 \<open>z < 2 ^ 53\<close> _ this] show ?thesis by (simp add: two_to_def)
  next
    case 3
    with assms have z: "0 < - z" "- z < 2 ^ 53" by simp_all
    then have "real_of_int (- z) < of_int (2 ^ 53)" by (simp only: of_int_less_iff)
    then have "of_int (- z) * two_to 0 < two_to 1024" using big by (simp add: two_to_def)
    from nearest_exact [OF z, of 0] this have "nearest (- of_int z) = - of_int z"
      "\<not> two_to 1024 \<le> nearest (- of_int z)" by (simp_all add: two_to_def)
    then show ?thesis using 3 by (simp add: fl_def)
  qed
qed

lemma fl_overflow:
  assumes "two_to 1024 \<le> x"
  shows "fl x = PosInf"
proof -
  have pos: "0 < two_to 1024" by simp
  have "nearest (of_int 1 * two_to 1024) = of_int 1 * two_to 1024"
    by (rule nearest_exact) simp_all
  then have "two_to 1024 \<le> nearest x" using nearest_mono [OF pos assms] by simp
  moreover have "0 < x" using assms pos by linarith
  ultimately show ?thesis by (simp add: fl_pos)
qed

lemma Math_pow2_exact: "0 \<le> n \<Longrightarrow> n \<le> 1023 \<Longrightarrow> Math_pow2 n = Fin (2 ^ nat n)"
proof -
  assume n: "0 \<le> n" "n \<le> 1023"
  have "two_to n < two_to 1024" using n by (simp add: two_to_less_iff)
  then have "fl (of_int 1 * two_to n) = Fin (of_int 1 * two_to n)"
    using n by (intro fl_exact) simp_all
  then show ?thesis using n by (simp add: Math_pow2_def two_to_nat)
qed

lemma scaled_exact:
  assumes "0 < m" "m < 2 ^ c" "c \<le> 53" "0 \<le> n" "n + int c \<le> 1024"
  shows "jmul (Fin (of_int m)) (Math_pow2 n) = Fin (of_int m * 2 ^ nat n)"
proof -
  have "real_of_int m < of_int (2 ^ c)" using assms(2) by (simp only: of_int_less_iff)
  then have "real_of_int m * two_to n < of_int (2 ^ c) * two_to n"
    by (intro mult_strict_right_mono) simp_all
  also have "\<dots> = two_to (n + int c)" using two_to_add [of "int c" n] by (simp add: two_to_def add.commute)
  also have "\<dots> \<le> two_to 1024" by (rule two_to_mono) (use assms in simp)
  finally have small: "real_of_int m * two_to n < two_to 1024" .
  have "(2::int) ^ c \<le> 2 ^ 53" by (rule power_increasing) (use assms(3) in simp_all)
  then have "m < 2 ^ 53" using assms(2) by linarith
  then have "fl (of_int m * two_to n) = Fin (of_int m * two_to n)"
    using assms small by (intro fl_exact) simp_all
  moreover have "n \<le> 1023" using assms(1,2,5) by (cases c) auto
  ultimately show ?thesis using assms by (simp add: jmul_def Math_pow2_exact two_to_nat)
qed


text \<open>The delay of \<^verbatim>\<open>getBackoffDelay\<close>: the exponential part plus a jitter of at most a tenth.\<close>

lemma fl_tenth: "fl tenth = Fin tenth"
proof -
  have "fl (of_int 3602879701896397 * two_to (- 55)) = Fin (of_int 3602879701896397 * two_to (- 55))"
    by (rule fl_exact) (simp_all add: two_to_def)
  then show ?thesis by (simp add: tenth_def two_to_def)
qed

lemma jitter_bounds:
  assumes "0 \<le> x" "x < 1" "0 < Ev" "fl (tenth * Ev) = Fin Jv"
  shows "\<exists>b. jmul (jmul (Fin x) (Fin tenth)) (Fin Ev) = Fin b \<and> 0 \<le> b \<and> b \<le> Jv"
proof -
  have t: "0 < tenth" by (simp add: tenth_def)
  have "x * tenth \<le> tenth" using assms(1,2) t by (simp add: mult_left_le_one_le)
  moreover have "0 \<le> x * tenth" using assms(1) t by simp
  ultimately obtain a where a: "fl (x * tenth) = Fin a" "0 \<le> a" "a \<le> tenth"
    using fl_le [OF _ _ fl_tenth] by blast
  have "a * Ev \<le> tenth * Ev" using a(3) assms(3) by (simp add: mult_right_mono)
  moreover have "0 \<le> a * Ev" using a(2) assms(3) by simp
  ultimately obtain b where "fl (a * Ev) = Fin b" "0 \<le> b" "b \<le> Jv"
    using fl_le [OF _ _ assms(4)] by blast
  then show ?thesis using a(1) by (simp add: jmul_def)
qed

lemma delay_window:
  assumes "0 \<le> x" "x < 1" "0 < Ev" "fl Ev = Fin Ev" "fl (tenth * Ev) = Fin Jv"
    and "fl (Ev + Jv) = Fin Sv"
  shows "\<exists>d. jadd (Fin Ev) (jmul (jmul (Fin x) (Fin tenth)) (Fin Ev)) = Fin d \<and> Ev \<le> d \<and> d \<le> Sv"
proof -
  from jitter_bounds [OF assms(1,2,3,5)] obtain b where
    b: "jmul (jmul (Fin x) (Fin tenth)) (Fin Ev) = Fin b" "0 \<le> b" "b \<le> Jv" by blast
  have "0 \<le> Ev + b" "Ev + b \<le> Ev + Jv" using b assms(3) by simp_all
  from fl_le [OF this assms(6)] obtain d where d: "fl (Ev + b) = Fin d" "d \<le> Sv" by blast
  have "Ev \<le> Ev + b" using b(2) by simp
  from fl_ge [OF assms(3) this assms(4)] d(1) have "Ev \<le> d" by simp
  with d b(1) show ?thesis by (simp add: jadd_def)
qed

lemma delay_above:
  assumes "0 \<le> x" "x < 1" "0 < Ev" "fl Ev = Fin Ev"
  shows "jadd (Fin Ev) (jmul (jmul (Fin x) (Fin tenth)) (Fin Ev)) = PosInf
         \<or> (\<exists>d. jadd (Fin Ev) (jmul (jmul (Fin x) (Fin tenth)) (Fin Ev)) = Fin d \<and> Ev \<le> d)"
proof -
  have t: "0 < tenth" "tenth \<le> 1" by (simp_all add: tenth_def)
  have "tenth * Ev \<le> Ev" using t(2) assms(3) by (simp add: mult_left_le_one_le)
  moreover have "0 \<le> tenth * Ev" using t(1) assms(3) by simp
  ultimately obtain Jv where "fl (tenth * Ev) = Fin Jv"
    using fl_le [OF _ _ assms(4)] by blast
  from jitter_bounds [OF assms(1,2,3) this] obtain b where
    b: "jmul (jmul (Fin x) (Fin tenth)) (Fin Ev) = Fin b" "0 \<le> b" by blast
  have "Ev \<le> Ev + b" using b(2) by simp
  from fl_ge [OF assms(3) this assms(4)] show ?thesis using b(1) by (simp add: jadd_def)
qed

lemma exponential_exact:
  assumes "1 \<le> k" "k \<le> 1015"
  shows "jmul (Fin CONFIG_baseRetryDelay) (Math_pow2 (k - 1)) = Fin (1000 * 2 ^ nat (k - 1))"
  using scaled_exact [of 1000 10 "k - 1"] assms by (simp add: CONFIG_baseRetryDelay_def)

lemma fl_exponential:
  assumes "1 \<le> k" "k \<le> 1015"
  shows "fl (1000 * 2 ^ nat (k - 1)) = Fin (1000 * 2 ^ nat (k - 1))"
  using scaled_exact [of 1000 10 "k - 1"] assms
  by (simp add: jmul_def Math_pow2_exact two_to_nat)

lemma getBackoffDelay_capped:
  assumes "0 \<le> x" "x < 1" "6 \<le> k" "k \<le> 1015"
  shows "getBackoffDelay (Fin x) k = Fin 30000"
proof -
  define Ev :: real where "Ev = 1000 * 2 ^ nat (k - 1)"
  have k: "1 \<le> k" using assms(3) by simp
  have "(2::real) ^ 5 \<le> 2 ^ nat (k - 1)"
    by (rule power_increasing) (use assms(3) in simp_all)
  then have big: "32000 \<le> Ev" by (simp add: Ev_def)
  then have pos: "0 < Ev" by simp
  have E: "jmul (Fin CONFIG_baseRetryDelay) (Math_pow2 (k - 1)) = Fin Ev"
    using exponential_exact [OF k assms(4)] by (simp add: Ev_def)
  have F: "fl Ev = Fin Ev" using fl_exponential [OF k assms(4)] by (simp add: Ev_def)
  from delay_above [OF assms(1,2) pos F] big show ?thesis
    by (auto simp: getBackoffDelay_def Let_def E Math_min_def CONFIG_maxRetryDelay_def)
qed

lemma getBackoffDelay_small:
  assumes "0 \<le> x" "x < 1" "1 \<le> k" "k \<le> 5"
  shows "\<exists>d. getBackoffDelay (Fin x) k = Fin d
             \<and> 1000 * 2 ^ nat (k - 1) \<le> d \<and> d \<le> 1100 * 2 ^ nat (k - 1)"
proof -
  define Ev :: real where "Ev = 1000 * 2 ^ nat (k - 1)"
  have k: "k \<le> 1015" using assms(4) by simp
  have E: "jmul (Fin CONFIG_baseRetryDelay) (Math_pow2 (k - 1)) = Fin Ev"
    using exponential_exact [OF assms(3) k] by (simp add: Ev_def)
  have F: "fl Ev = Fin Ev" using fl_exponential [OF assms(3) k] by (simp add: Ev_def)
  have pos: "0 < Ev" by (simp add: Ev_def)
  from assms(3,4) have "k = 1 \<or> k = 2 \<or> k = 3 \<or> k = 4 \<or> k = 5" by arith
  then have v: "Ev = 1000 \<or> Ev = 2000 \<or> Ev = 4000 \<or> Ev = 8000 \<or> Ev = 16000"
    by (auto simp: Ev_def)
  have "fl (tenth * 1000) = Fin 100" "fl (tenth * 2000) = Fin 200" "fl (tenth * 4000) = Fin 400"
    "fl (tenth * 8000) = Fin 800" "fl (tenth * 16000) = Fin 1600"
    by (simp_all add: tenth_def fl_def nearest_def quantum_def ilog2_def rne_def two_to_def
        Let_def compute_bitlen)
  then have J: "fl (tenth * Ev) = Fin (Ev / 10)"
    using v by auto
  have "fl (of_int z) = Fin (of_int z)" if "\<bar>z\<bar> < 2 ^ 53" for z
    using that by (rule fl_of_int)
  from this [of 1100] this [of 2200] this [of 4400] this [of 8800] this [of 17600]
  have S: "fl (Ev + Ev / 10) = Fin (Ev + Ev / 10)"
    using v by auto
  from delay_window [OF assms(1,2) pos F J S] obtain d where
    d: "jadd (Fin Ev) (jmul (jmul (Fin x) (Fin tenth)) (Fin Ev)) = Fin d" "Ev \<le> d" "d \<le> Ev + Ev / 10"
    by blast
  have "d \<le> 30000" using d(3) v by auto
  then have "getBackoffDelay (Fin x) k = Fin d"
    using d(1) by (simp add: getBackoffDelay_def Let_def E Math_min_def CONFIG_maxRetryDelay_def)
  moreover have "Ev + Ev / 10 = 1100 * 2 ^ nat (k - 1)" by (simp add: Ev_def)
  ultimately show ?thesis using d(2,3) by (simp add: Ev_def)
qed

text \<open>
  From the 1016th attempt on the exponential part is no longer a double: the product
  is an infinity, and the jitter of a zero draw is \<^verbatim>\<open>0 * Infinity\<close>.
\<close>

lemma exponential_overflow:
  assumes "1016 \<le> k"
  shows "jmul (Fin CONFIG_baseRetryDelay) (Math_pow2 (k - 1)) = PosInf"
proof (cases "k - 1 \<le> 1023")
  case True
  then have p: "Math_pow2 (k - 1) = Fin (two_to (k - 1))"
    using assms Math_pow2_exact [of "k - 1"] by (simp add: two_to_nat)
  have "two_to 1024 = two_to 9 * two_to 1015" using two_to_add [of 9 1015] by simp
  also have "\<dots> \<le> 1000 * two_to 1015" by (simp add: two_to_def)
  also have "\<dots> \<le> 1000 * two_to (k - 1)"
    using two_to_mono [of 1015 "k - 1"] assms by simp
  finally have "fl (1000 * two_to (k - 1)) = PosInf" by (rule fl_overflow)
  then show ?thesis by (simp add: p jmul_def CONFIG_baseRetryDelay_def)
next
  case False
  then have "two_to 1024 \<le> two_to (k - 1)" by (intro two_to_mono) simp
  then have "Math_pow2 (k - 1) = PosInf" unfolding Math_pow2_def by (rule fl_overflow)
  then show ?thesis by (simp add: jmul_def CONFIG_baseRetryDelay_def)
qed

lemma getBackoffDelay_zero_draw:
  assumes "1016 \<le> k"
  shows "getBackoffDelay (Fin 0) k = NaN"
  using exponential_overflow [OF assms]
  by (simp add: getBackoffDelay_def Let_def jmul_def jadd_def Math_min_def fl_def)

lemma getBackoffDelay_beyond:
  assumes "0 \<le> x" "x < 1" "1016 \<le> k" "jmul (Fin x) (Fin tenth) \<noteq> Fin 0"
  shows "getBackoffDelay (Fin x) k = Fin 30000"
proof -
  have t: "0 < tenth" by (simp add: tenth_def)
  have "x * tenth \<le> tenth" using assms(1,2) t by (simp add: mult_left_le_one_le)
  moreover have "0 \<le> x * tenth" using assms(1) t by simp
  ultimately obtain a where a: "fl (x * tenth) = Fin a" "0 \<le> a"
    using fl_le [OF _ _ fl_tenth] by blast
  have "a \<noteq> 0" using assms(4) a(1) by (simp add: jmul_def)
  then have "0 < a" using a(2) by simp
  then have "jmul (jmul (Fin x) (Fin tenth)) PosInf = PosInf"
    using a(1) by (simp add: jmul_def)
  then show ?thesis
    using exponential_overflow [OF assms(3)]
    by (simp add: getBackoffDelay_def Let_def jadd_def Math_min_def CONFIG_maxRetryDelay_def)
qed

lemma index_delay_exact:
  assumes "1 \<le> k" "k \<le> 1014"
  shows "jmul (Fin CONFIG_retryDelay_index) (Math_pow2 (k - 1)) = Fin (2000 * 2 ^ nat (k - 1))"
  using scaled_exact [of 2000 11 "k - 1"] assms by (simp add: CONFIG_retryDelay_index_def)

lemma index_delay_overflow:
  assumes "1015 \<le> k"
  shows "jmul (Fin CONFIG_retryDelay_index) (Math_pow2 (k - 1)) = PosInf"
proof (cases "k - 1 \<le> 1023")
  case True
  then have p: "Math_pow2 (k - 1) = Fin (two_to (k - 1))"
    using assms Math_pow2_exact [of "k - 1"] by (simp add: two_to_nat)
  have "two_to 1024 = two_to 10 * two_to 1014" using two_to_add [of 10 1014] by simp
  also have "\<dots> \<le> 2000 * two_to 1014" by (simp add: two_to_def)
  also have "\<dots> \<le> 2000 * two_to (k - 1)"
    using two_to_mono [of 1014 "k - 1"] assms by simp
  finally have "fl (2000 * two_to (k - 1)) = PosInf" by (rule fl_overflow)
  then show ?thesis by (simp add: p jmul_def CONFIG_retryDelay_index_def)
next
  case False
  then have "two_to 1024 \<le> two_to (k - 1)" by (intro two_to_mono) simp
  then have "Math_pow2 (k - 1) = PosInf" unfolding Math_pow2_def by (rule fl_overflow)
  then show ?thesis by (simp add: jmul_def CONFIG_retryDelay_index_def)
qed

subsection \<open>Retry policy\<close>

declare withRetry_loop.simps [simp del] withRetry_loop_index.simps [simp del]

lemma upto_shift: "a \<le> b \<Longrightarrow> [a..b] = a # [a + 1..b]"
  by (simp add: upto_rec1)

lemma withRetry_loop_succeeds:
  assumes "a \<le> j" and "j \<le> M"
    and "\<forall>i. a \<le> i \<and> i < j \<longrightarrow> isl (outcome i)"
    and "outcome j = Inr v"
  shows "\<exists>effs. withRetry_loop rand (scripted outcome) name M a (a - 1) = (Inr (Some v), j, effs)
           \<and> sleeps effs = map (\<lambda>k. getBackoffDelay (rand k) k) [a..j - 1]"
  using assms
proof (induction "nat (j - a)" arbitrary: a)
  case 0
  then have aj: "a = j" by simp
  have "withRetry_loop rand (scripted outcome) name M a (a - 1) = (Inr (Some v), j, [])"
    using 0 aj by (subst withRetry_loop.simps) (simp add: scripted_def Let_def)
  then show ?case using aj by simp
next
  case (Suc n)
  then have lt: "a < j" by simp
  then have "isl (outcome a)" using Suc.prems by simp
  then obtain e where e: "outcome a = Inl e" by (cases "outcome a") auto
  have n: "n = nat (j - (a + 1))" using Suc.hyps(2) by simp
  have prems: "a + 1 \<le> j" "\<forall>i. a + 1 \<le> i \<and> i < j \<longrightarrow> isl (outcome i)"
    using lt Suc.prems by auto
  from Suc.hyps(1) [OF n prems(1) Suc.prems(2) prems(2) Suc.prems(4)]
  obtain effs where effs:
    "withRetry_loop rand (scripted outcome) name M (a + 1) a = (Inr (Some v), j, effs)"
    "sleeps effs = map (\<lambda>k. getBackoffDelay (rand k) k) [a + 1..j - 1]"
    by auto
  have neq: "a \<noteq> M" "a \<le> M" using lt Suc.prems by auto
  have step: "withRetry_loop rand (scripted outcome) name M a (a - 1) =
      (Inr (Some v), j,
       [Logged Warn [S name, S '' failed'']
          [(''attempt'', I a), (''maxRetries'', I M), (''error'', S (err_message e))],
        Logged Info [S ''Retrying '', S name]
          [(''delay'', N (getBackoffDelay (rand a) a)), (''nextAttempt'', I (a + 1))],
        Slept (getBackoffDelay (rand a) a)] @ effs)"
    using neq e effs(1) by (subst withRetry_loop.simps) (simp add: scripted_def Let_def)
  have up: "[a..j - 1] = a # [a + 1..j - 1]"
    using lt by (intro upto_shift) simp
  show ?case
    unfolding step up using effs(2) by simp
qed

lemma withRetry_loop_exhausts:
  assumes "a \<le> M" and "\<forall>i. a \<le> i \<and> i \<le> M \<longrightarrow> outcome i = Inl (err i)"
  shows "\<exists>effs. withRetry_loop rand (scripted outcome) name M a (a - 1) = (Inl (err M), M, effs)
           \<and> sleeps effs = map (\<lambda>k. getBackoffDelay (rand k) k) [a..M - 1]
           \<and> effs \<noteq> []
           \<and> last effs = Logged Error [S name, S '' failed after all retries'']
                            [(''attempts'', I M), (''error'', S (err_message (err M)))]"
  using assms
proof (induction "nat (M - a)" arbitrary: a)
  case 0
  then have aM: "a = M" by simp
  have "outcome M = Inl (err M)" using 0 aM by simp
  then have "withRetry_loop rand (scripted outcome) name M a (a - 1) =
      (Inl (err M), M,
       [Logged Warn [S name, S '' failed'']
          [(''attempt'', I M), (''maxRetries'', I M), (''error'', S (err_message (err M)))],
        Logged Error [S name, S '' failed after all retries'']
          [(''attempts'', I M), (''error'', S (err_message (err M)))]])"
    using aM by (subst withRetry_loop.simps) (simp add: scripted_def Let_def)
  then show ?case using aM by simp
next
  case (Suc n)
  then have lt: "a < M" by simp
  have e: "outcome a = Inl (err a)" using Suc.prems by simp
  have n: "n = nat (M - (a + 1))" using Suc.hyps(2) by simp
  have prems: "a + 1 \<le> M" "\<forall>i. a + 1 \<le> i \<and> i \<le> M \<longrightarrow> outcome i = Inl (err i)"
    using lt Suc.prems by auto
  from Suc.hyps(1) [OF n prems]
  obtain effs where effs:
    "withRetry_loop rand (scripted outcome) name M (a + 1) a = (Inl (err M), M, effs)"
    "sleeps effs = map (\<lambda>k. getBackoffDelay (rand k) k) [a + 1..M - 1]"
    "effs \<noteq> []"
    "last effs = Logged Error [S name, S '' failed after all retries'']
                            [(''attempts'', I M), (''error'', S (err_message (err M)))]"
    by auto
  have neq: "a \<noteq> M" "a \<le> M" using lt by auto
  have step: "withRetry_loop rand (scripted outcome) name M a (a - 1) =
      (Inl (err M), M,
       [Logged Warn [S name, S '' failed'']
          [(''attempt'', I a), (''maxRetries'', I M), (''error'', S (err_message (err a)))],
        Logged Info [S ''Retrying '', S name]
          [(''delay'', N (getBackoffDelay (rand a) a)), (''nextAttempt'', I (a + 1))],
        Slept (getBackoffDelay (rand a) a)] @ effs)"
    using neq e effs(1) by (subst withRetry_loop.simps) (simp add: scripted_def Let_def)
  have up: "[a..M - 1] = a # [a + 1..M - 1]"
    using lt by (intro upto_shift) simp
  show ?case
    unfolding step up using effs(2,3,4) by simp
qed

lemma withRetry_loop_calls:
  "fst (snd (withRetry_loop rand (scripted outcome) name M a n)) \<le> max n (n + (M - a + 1))"
proof (induction rand "scripted outcome" name M a n rule: withRetry_loop.induct)
  case (1 rand name M a n)
  show ?case
  proof (cases "a \<le> M")
    case False
    then show ?thesis by (subst withRetry_loop.simps) simp
  next
    case True
    show ?thesis
    proof (cases "outcome (n + 1)")
      case (Inr v)
      then show ?thesis using True by (subst withRetry_loop.simps) (simp add: scripted_def Let_def)
    next
      case (Inl e)
      show ?thesis
      proof (cases "a = M")
        case True
        then show ?thesis using Inl by (subst withRetry_loop.simps) (simp add: scripted_def Let_def)
      next
        case False
        have op: "scripted outcome n = (Inl e, n + 1)" using Inl by (simp add: scripted_def Let_def)
        have ih: "fst (snd (withRetry_loop rand (scripted outcome) name M (a + 1) (n + 1)))
                    \<le> max (n + 1) (n + 1 + (M - (a + 1) + 1))"
          using "1.hyps" [OF True op [symmetric] refl refl False refl] .
        show ?thesis
          using ih True False op
          by (subst withRetry_loop.simps) (simp add: split_beta Let_def)
      qed
    qed
  qed
qed

lemma withRetry_loop_index_succeeds:
  assumes "a \<le> j" and "j \<le> M"
    and "\<forall>i. a \<le> i \<and> i < j \<longrightarrow> isl (outcome i)"
    and "outcome j = Inr v"
  shows "\<exists>effs. withRetry_loop_index (scripted outcome) name M a (a - 1) = (Inr (Some v), j, effs)
           \<and> sleeps effs = map (\<lambda>k. jmul (Fin CONFIG_retryDelay_index) (Math_pow2 (k - 1))) [a..j - 1]"
  using assms
proof (induction "nat (j - a)" arbitrary: a)
  case 0
  then have aj: "a = j" by simp
  have "withRetry_loop_index (scripted outcome) name M a (a - 1) = (Inr (Some v), j, [])"
    using 0 aj by (subst withRetry_loop_index.simps) (simp add: scripted_def Let_def)
  then show ?case using aj by simp
next
  case (Suc n)
  then have lt: "a < j" by simp
  then have "isl (outcome a)" using Suc.prems by simp
  then obtain e where e: "outcome a = Inl e" by (cases "outcome a") auto
  have n: "n = nat (j - (a + 1))" using Suc.hyps(2) by simp
  have prems: "a + 1 \<le> j" "\<forall>i. a + 1 \<le> i \<and> i < j \<longrightarrow> isl (outcome i)"
    using lt Suc.prems by auto
  from Suc.hyps(1) [OF n prems(1) Suc.prems(2) prems(2) Suc.prems(4)]
  obtain effs where effs:
    "withRetry_loop_index (scripted outcome) name M (a + 1) a = (Inr (Some v), j, effs)"
    "sleeps effs = map (\<lambda>k. jmul (Fin CONFIG_retryDelay_index) (Math_pow2 (k - 1))) [a + 1..j - 1]"
    by auto
  have neq: "a \<noteq> M" "a \<le> M" using lt Suc.prems by auto
  have step: "withRetry_loop_index (scripted outcome) name M a (a - 1) =
      (Inr (Some v), j,
       [Logged Error [S name, S '' failed (attempt '', I a, S ''/'', I M, S '')'']
          [(''error'', S (err_message e))],
        Logged Info [S ''Retrying '', S name, S '' in '',
          N (jmul (Fin CONFIG_retryDelay_index) (Math_pow2 (a - 1))), S ''ms''] [],
        Slept (jmul (Fin CONFIG_retryDelay_index) (Math_pow2 (a - 1)))] @ effs)"
    using neq e effs(1) by (subst withRetry_loop_index.simps) (simp add: scripted_def Let_def)
  have up: "[a..j - 1] = a # [a + 1..j - 1]"
    using lt by (intro upto_shift) simp
  show ?case
    unfolding step up using effs(2) by simp
qed

lemma withRetry_loop_index_exhausts:
  assumes "a \<le> M" and "\<forall>i. a \<le> i \<and> i \<le> M \<longrightarrow> outcome i = Inl (err i)"
  shows "\<exists>effs. withRetry_loop_index (scripted outcome) name M a (a - 1) = (Inl (err M), M, effs)
           \<and> sleeps effs = map (\<lambda>k. jmul (Fin CONFIG_retryDelay_index) (Math_pow2 (k - 1))) [a..M - 1]
           \<and> effs \<noteq> []
           \<and> last effs = Logged Error [S name, S '' failed (attempt '', I M, S ''/'', I M, S '')'']
                            [(''error'', S (err_message (err M)))]"
  using assms
proof (induction "nat (M - a)" arbitrary: a)
  case 0
  then have aM: "a = M" by simp
  have "outcome M = Inl (err M)" using 0 aM by simp
  then have "withRetry_loop_index (scripted outcome) name M a (a - 1) =
      (Inl (err M), M,
       [Logged Error [S name, S '' failed (attempt '', I M, S ''/'', I M, S '')'']
          [(''error'', S (err_message (err M)))]])"
    using aM by (subst withRetry_loop_index.simps) (simp add: scripted_def Let_def)
  then show ?case using aM by simp
next
  case (Suc n)
  then have lt: "a < M" by simp
  have e: "outcome a = Inl (err a)" using Suc.prems by simp
  have n: "n = nat (M - (a + 1))" using Suc.hyps(2) by simp
  have prems: "a + 1 \<le> M" "\<forall>i. a + 1 \<le> i \<and> i \<le> M \<longrightarrow> outcome i = Inl (err i)"
    using lt Suc.prems by auto
  from Suc.hyps(1) [OF n prems]
  obtain effs where effs:
    "withRetry_loop_index (scripted outcome) name M (a + 1) a = (Inl (err M), M, effs)"
    "sleeps effs = map (\<lambda>k. jmul (Fin CONFIG_retryDelay_index) (Math_pow2 (k - 1))) [a + 1..M - 1]"
    "effs \<noteq> []"
    "last effs = Logged Error [S name, S '' failed (attempt '', I M, S ''/'', I M, S '')'']
                            [(''error'', S (err_message (err M)))]"
    by auto
  have neq: "a \<noteq> M" "a \<le> M" using lt by auto
  have step: "withRetry_loop_index (scripted outcome) name M a (a - 1) =
      (Inl (err M), M,
       [Logged Error [S name, S '' failed (attempt '', I a, S ''/'', I M, S '')'']
          [(''error'', S (err_message (err a)))],
        Logged Info [S ''Retrying '', S name, S '' in '',
          N (jmul (Fin CONFIG_retryDelay_index) (Math_pow2 (a - 1))), S ''ms''] [],
        Slept (jmul (Fin CONFIG_retryDelay_index) (Math_pow2 (a - 1)))] @ effs)"
    using neq e effs(1) by (subst withRetry_loop_index.simps) (simp add: scripted_def Let_def)
  have up: "[a..M - 1] = a # [a + 1..M - 1]"
    using lt by (intro upto_shift) simp
  show ?case
    unfolding step up using effs(2,3,4) by simp
qed

lemma withRetry_loop_index_calls:
  "fst (snd (withRetry_loop_index (scripted outcome) name M a n)) \<le> max n (n + (M - a + 1))"
proof (induction "scripted outcome" name M a n rule: withRetry_loop_index.induct)
  case (1 name M a n)
  show ?case
  proof (cases "a \<le> M")
    case False
    then show ?thesis by (subst withRetry_loop_index.simps) simp
  next
    case True
    show ?thesis
    proof (cases "outcome (n + 1)")
      case (Inr v)
      then show ?thesis using True by (subst withRetry_loop_index.simps) (simp add: scripted_def Let_def)
    next
      case (Inl e)
      show ?thesis
      proof (cases "a = M")
        case True
        then show ?thesis using Inl by (subst withRetry_loop_index.simps) (simp add: scripted_def Let_def)
      next
        case False
        have op: "scripted outcome n = (Inl e, n + 1)" using Inl by (simp add: scripted_def Let_def)
        have ih: "fst (snd (withRetry_loop_index (scripted outcome) name M (a + 1) (n + 1)))
                    \<le> max (n + 1) (n + 1 + (M - (a + 1) + 1))"
          using "1.hyps" [OF True op [symmetric] refl refl False refl] .
        show ?thesis
          using ih True False op
          by (subst withRetry_loop_index.simps) (simp add: split_beta Let_def)
      qed
    qed
  qed
qed

lemma map_upto_cong:
  "(\<And>k. a \<le> k \<Longrightarrow> f k = g k) \<Longrightarrow> map f [a..b] = map g [a..b]"
  by (rule map_cong) auto

lemma invoke_next:
  assumes "1 \<le> a"
  shows "operation (worldAfter operation w (nat (a - 1))) =
           (invocation operation w a, worldAfter operation w (nat a))"
proof -
  have "nat a = Suc (nat (a - 1))" using assms by simp
  then show ?thesis by (simp add: invocation_def)
qed

lemma withRetry_loop_scripted:
  assumes "1 \<le> a"
  shows "withRetry_loop rand operation name M a (worldAfter operation w (nat (a - 1))) =
           (case withRetry_loop rand (scripted (invocation operation w)) name M a (a - 1) of
              (res, n, effs) \<Rightarrow> (res, worldAfter operation w (nat n), effs))"
  using assms
proof (induction "nat (M + 1 - a)" arbitrary: a)
  case 0
  then have "\<not> a \<le> M" by simp
  then show ?case
    by (simp add: withRetry_loop.simps [of _ _ _ M a])
next
  case (Suc n)
  then have le: "a \<le> M" by simp
  note op = invoke_next [OF Suc.prems, of operation w]
  have sc: "scripted (invocation operation w) (a - 1) = (invocation operation w a, a)"
    by (simp add: scripted_def)
  show ?case
  proof (cases "invocation operation w a")
    case (Inr v)
    then show ?thesis
      using le op sc by (simp add: withRetry_loop.simps [of _ _ _ M a])
  next
    case (Inl e)
    show ?thesis
    proof (cases "a = M")
      case True
      then show ?thesis
        using Inl op sc by (simp add: withRetry_loop.simps [of _ _ _ M M] Let_def)
    next
      case False
      have n: "n = nat (M + 1 - (a + 1))" using Suc.hyps(2) by simp
      have a1: "1 \<le> a + 1" using Suc.prems by simp
      have ih: "withRetry_loop rand operation name M (a + 1) (worldAfter operation w (nat a)) =
           (case withRetry_loop rand (scripted (invocation operation w)) name M (a + 1) a of
              (res, n, effs) \<Rightarrow> (res, worldAfter operation w (nat n), effs))"
        using Suc.hyps(1) [OF n a1] by simp
      show ?thesis
        using Inl op sc le False ih
        by (simp add: withRetry_loop.simps [of _ _ _ M a] Let_def split_beta)
    qed
  qed
qed

lemma withRetry_loop_index_scripted:
  assumes "1 \<le> a"
  shows "withRetry_loop_index operation name M a (worldAfter operation w (nat (a - 1))) =
           (case withRetry_loop_index (scripted (invocation operation w)) name M a (a - 1) of
              (res, n, effs) \<Rightarrow> (res, worldAfter operation w (nat n), effs))"
  using assms
proof (induction "nat (M + 1 - a)" arbitrary: a)
  case 0
  then have "\<not> a \<le> M" by simp
  then show ?case
    by (simp add: withRetry_loop_index.simps [of _ _ M a])
next
  case (Suc n)
  then have le: "a \<le> M" by simp
  note op = invoke_next [OF Suc.prems, of operation w]
  have sc: "scripted (invocation operation w) (a - 1) = (invocation operation w a, a)"
    by (simp add: scripted_def)
  show ?case
  proof (cases "invocation operation w a")
    case (Inr v)
    then show ?thesis
      using le op sc by (simp add: withRetry_loop_index.simps [of _ _ M a])
  next
    case (Inl e)
    show ?thesis
    proof (cases "a = M")
      case True
      then show ?thesis
        using Inl op sc by (simp add: withRetry_loop_index.simps [of _ _ M M] Let_def)
    next
      case False
      have n: "n = nat (M + 1 - (a + 1))" using Suc.hyps(2) by simp
      have a1: "1 \<le> a + 1" using Suc.prems by simp
      have ih: "withRetry_loop_index operation name M (a + 1) (worldAfter operation w (nat a)) =
           (case withRetry_loop_index (scripted (invocation operation w)) name M (a + 1) a of
              (res, n, effs) \<Rightarrow> (res, worldAfter operation w (nat n), effs))"
        using Suc.hyps(1) [OF n a1] by simp
      show ?thesis
        using Inl op sc le False ih
        by (simp add: withRetry_loop_index.simps [of _ _ M a] Let_def split_beta)
    qed
  qed
qed

lemma withRetry_scripted:
  "withRetry rand operation name M w =
     (case withRetry rand (scripted (invocation operation w)) name M 0 of
        (res, n, effs) \<Rightarrow> (res, worldAfter operation w (nat n), effs))"
  using withRetry_loop_scripted [of 1 rand operation name M w] by (simp add: withRetry_def)

lemma withRetry_index_scripted:
  "withRetry_index operation name M w =
     (case withRetry_index (scripted (invocation operation w)) name M 0 of
        (res, n, effs) \<Rightarrow> (res, worldAfter operation w (nat n), effs))"
  using withRetry_loop_index_scripted [of 1 operation name M w] by (simp add: withRetry_index_def)

lemma withRetry_loop_count_nonneg:
  "0 \<le> n \<Longrightarrow> 0 \<le> fst (snd (withRetry_loop rand (scripted outcome) name M a n))"
proof (induction "nat (M + 1 - a)" arbitrary: a n)
  case 0
  then have "\<not> a \<le> M" by simp
  then show ?case using 0 by (simp add: withRetry_loop.simps [of _ _ _ M a])
next
  case (Suc k)
  then have le: "a \<le> M" by simp
  have k: "k = nat (M + 1 - (a + 1))" using Suc.hyps(2) by simp
  have ih: "0 \<le> fst (snd (withRetry_loop rand (scripted outcome) name M (a + 1) (n + 1)))"
    using Suc.hyps(1) [OF k, of "n + 1"] Suc.prems by simp
  show ?case
    using le ih Suc.prems
    by (simp add: withRetry_loop.simps [of _ _ _ M a] scripted_def Let_def split_beta
        split: sum.splits)
qed


lemma withRetry_loop_index_count_nonneg:
  "0 \<le> n \<Longrightarrow> 0 \<le> fst (snd (withRetry_loop_index (scripted outcome) name M a n))"
proof (induction "nat (M + 1 - a)" arbitrary: a n)
  case 0
  then have "\<not> a \<le> M" by simp
  then show ?case using 0 by (simp add: withRetry_loop_index.simps [of _ _ M a])
next
  case (Suc k)
  then have le: "a \<le> M" by simp
  have k: "k = nat (M + 1 - (a + 1))" using Suc.hyps(2) by simp
  have ih: "0 \<le> fst (snd (withRetry_loop_index (scripted outcome) name M (a + 1) (n + 1)))"
    using Suc.hyps(1) [OF k, of "n + 1"] Suc.prems by simp
  show ?case
    using le ih Suc.prems
    by (simp add: withRetry_loop_index.simps [of _ _ M a] scripted_def Let_def split_beta
        split: sum.splits)
qed

lemma worldAfter_scripted: "worldAfter (scripted f) c n = c + int n"
  by (induction n) (simp_all add: scripted_def)

lemma invocation_scripted: "1 \<le> k \<Longrightarrow> invocation (scripted f) 0 k = f k"
  by (simp add: invocation_def worldAfter_scripted scripted_def)

lemma nth_upto_int: "0 \<le> k \<Longrightarrow> i + k \<le> j \<Longrightarrow> [i..j] ! nat k = i + k"
  using nth_upto [of i "nat k" j] by simp

text \<open>
  C4 (as amended). For every operation, every world \<open>w\<close> it starts from and every integer
  \<open>M \<ge> 1\<close> of attempts, \<^verbatim>\<open>withRetry\<close> invokes the operation at most \<open>M\<close> times (it leaves the
  world as it is after \<open>n \<le> M\<close> invocations) and returns the first successful result. After
  the \<open>k\<close>-th failure with \<open>k < M\<close> the production server sleeps the value of
  \<^verbatim>\<open>getBackoffDelay(k)\<close>, which is \<open>1000 * 2^(k-1)\<close> ms plus a jitter of at most 10 per cent,
  capped at 30000 ms: for \<open>k\<close> up to 1015 always, and beyond, where \<open>1000 * 2^(k-1)\<close> is no
  longer a finite double, when a tenth of the draw does not round to zero. In
  \<^verbatim>\<open>src/index.js\<close> it sleeps the product \<^verbatim>\<open>CONFIG.retryDelay * Math.pow(2, k - 1)\<close>, which
  for \<open>k\<close> up to 1014 is \<open>2000 * 2^(k-1)\<close> ms, with no jitter and no cap. After the \<open>M\<close>-th
  failure the operation's last error is thrown to the caller as it is; the attempt count
  and the operation name are in the log entry written just before the throw.
\<close>

theorem withRetry_policy:
  fixes operation :: "'w \<Rightarrow> (js_error + 'a) \<times> 'w"
  assumes "1 \<le> M" and "\<forall>k. unitDraw (rand k)"
  shows
   "(\<exists>n \<le> nat M. fst (snd (withRetry rand operation name M w)) = worldAfter operation w n)
    \<and> (\<exists>n \<le> nat M. fst (snd (withRetry_index operation name M w)) = worldAfter operation w n)
    \<and> (1 \<le> j \<and> j \<le> M \<and> (\<forall>i. 1 \<le> i \<and> i < j \<longrightarrow> isl (invocation operation w i))
          \<and> invocation operation w j = Inr v \<longrightarrow>
         (\<exists>effs. withRetry rand operation name M w = (Inr (Some v), worldAfter operation w (nat j), effs)
            \<and> sleeps effs = map (\<lambda>k. getBackoffDelay (rand k) k) [1..j - 1])
       \<and> (\<exists>effs. withRetry_index operation name M w = (Inr (Some v), worldAfter operation w (nat j), effs)
            \<and> sleeps effs = map (\<lambda>k. jmul (Fin CONFIG_retryDelay_index) (Math_pow2 (k - 1))) [1..j - 1]))
    \<and> ((\<forall>i. 1 \<le> i \<and> i \<le> M \<longrightarrow> invocation operation w i = Inl (err i)) \<longrightarrow>
         (\<exists>effs. withRetry rand operation name M w = (Inl (err M), worldAfter operation w (nat M), effs)
            \<and> sleeps effs = map (\<lambda>k. getBackoffDelay (rand k) k) [1..M - 1]
            \<and> last effs = Logged Error [S name, S '' failed after all retries'']
                             [(''attempts'', I M), (''error'', S (err_message (err M)))])
       \<and> (\<exists>effs. withRetry_index operation name M w = (Inl (err M), worldAfter operation w (nat M), effs)
            \<and> sleeps effs = map (\<lambda>k. jmul (Fin CONFIG_retryDelay_index) (Math_pow2 (k - 1))) [1..M - 1]
            \<and> last effs = Logged Error [S name, S '' failed (attempt '', I M, S ''/'', I M, S '')'']
                             [(''error'', S (err_message (err M)))]))
    \<and> (\<forall>k. 1 \<le> k \<and> (k \<le> 1015 \<or> jmul (rand k) (Fin tenth) \<noteq> Fin 0) \<longrightarrow>
          (\<exists>d. getBackoffDelay (rand k) k = Fin d
             \<and> min (1000 * 2 ^ nat (k - 1)) 30000 \<le> d \<and> d \<le> min (1100 * 2 ^ nat (k - 1)) 30000))
    \<and> (\<forall>k. 1 \<le> k \<and> k \<le> 1014 \<longrightarrow>
          jmul (Fin CONFIG_retryDelay_index) (Math_pow2 (k - 1)) = Fin (2000 * 2 ^ nat (k - 1)))"
proof -
  let ?script = "scripted (invocation operation w)"
  have calls: "\<exists>n \<le> nat M. fst (snd (withRetry rand operation name M w)) = worldAfter operation w n"
  proof -
    let ?c = "fst (snd (withRetry rand ?script name M 0))"
    have "?c \<le> M"
      using withRetry_loop_calls [of rand "invocation operation w" name M 1 0] assms(1)
      by (simp add: withRetry_def)
    then have "nat ?c \<le> nat M" by simp
    moreover have "fst (snd (withRetry rand operation name M w)) = worldAfter operation w (nat ?c)"
      by (subst withRetry_scripted) (simp add: split_beta)
    ultimately show ?thesis by blast
  qed
  have calls_i: "\<exists>n \<le> nat M. fst (snd (withRetry_index operation name M w)) = worldAfter operation w n"
  proof -
    let ?c = "fst (snd (withRetry_index ?script name M 0))"
    have "?c \<le> M"
      using withRetry_loop_index_calls [of "invocation operation w" name M 1 0] assms(1)
      by (simp add: withRetry_index_def)
    then have "nat ?c \<le> nat M" by simp
    moreover have "fst (snd (withRetry_index operation name M w)) = worldAfter operation w (nat ?c)"
      by (subst withRetry_index_scripted) (simp add: split_beta)
    ultimately show ?thesis by blast
  qed
  have succ: "\<exists>effs. withRetry rand operation name M w = (Inr (Some v), worldAfter operation w (nat j), effs)
            \<and> sleeps effs = map (\<lambda>k. getBackoffDelay (rand k) k) [1..j - 1]"
    if run: "1 \<le> j" "j \<le> M" "\<forall>i. 1 \<le> i \<and> i < j \<longrightarrow> isl (invocation operation w i)"
      "invocation operation w j = Inr v"
  proof -
    obtain effs where "withRetry rand ?script name M 0 = (Inr (Some v), j, effs)"
        "sleeps effs = map (\<lambda>k. getBackoffDelay (rand k) k) [1..j - 1]"
      using withRetry_loop_succeeds [OF run, of rand name] by (auto simp: withRetry_def)
    then show ?thesis
      by (subst withRetry_scripted) simp
  qed
  have succ_i: "\<exists>effs. withRetry_index operation name M w = (Inr (Some v), worldAfter operation w (nat j), effs)
            \<and> sleeps effs = map (\<lambda>k. jmul (Fin CONFIG_retryDelay_index) (Math_pow2 (k - 1))) [1..j - 1]"
    if run: "1 \<le> j" "j \<le> M" "\<forall>i. 1 \<le> i \<and> i < j \<longrightarrow> isl (invocation operation w i)"
      "invocation operation w j = Inr v"
  proof -
    obtain effs where "withRetry_index ?script name M 0 = (Inr (Some v), j, effs)"
        "sleeps effs = map (\<lambda>k. jmul (Fin CONFIG_retryDelay_index) (Math_pow2 (k - 1))) [1..j - 1]"
      using withRetry_loop_index_succeeds [OF run, of name] by (auto simp: withRetry_index_def)
    then show ?thesis
      by (subst withRetry_index_scripted) simp
  qed
  have fail: "\<exists>effs. withRetry rand operation name M w = (Inl (err M), worldAfter operation w (nat M), effs)
            \<and> sleeps effs = map (\<lambda>k. getBackoffDelay (rand k) k) [1..M - 1]
            \<and> last effs = Logged Error [S name, S '' failed after all retries'']
                             [(''attempts'', I M), (''error'', S (err_message (err M)))]"
    if run: "\<forall>i. 1 \<le> i \<and> i \<le> M \<longrightarrow> invocation operation w i = Inl (err i)"
  proof -
    obtain effs where "withRetry rand ?script name M 0 = (Inl (err M), M, effs)"
        "sleeps effs = map (\<lambda>k. getBackoffDelay (rand k) k) [1..M - 1]"
        "last effs = Logged Error [S name, S '' failed after all retries'']
                             [(''attempts'', I M), (''error'', S (err_message (err M)))]"
      using withRetry_loop_exhausts [OF assms(1) run, of rand name] by (auto simp: withRetry_def)
    then show ?thesis
      by (subst withRetry_scripted) simp
  qed
  have fail_i: "\<exists>effs. withRetry_index operation name M w = (Inl (err M), worldAfter operation w (nat M), effs)
            \<and> sleeps effs = map (\<lambda>k. jmul (Fin CONFIG_retryDelay_index) (Math_pow2 (k - 1))) [1..M - 1]
            \<and> last effs = Logged Error [S name, S '' failed (attempt '', I M, S ''/'', I M, S '')'']
                             [(''error'', S (err_message (err M)))]"
    if run: "\<forall>i. 1 \<le> i \<and> i \<le> M \<longrightarrow> invocation operation w i = Inl (err i)"
  proof -
    obtain effs where "withRetry_index ?script name M 0 = (Inl (err M), M, effs)"
        "sleeps effs = map (\<lambda>k. jmul (Fin CONFIG_retryDelay_index) (Math_pow2 (k - 1))) [1..M - 1]"
        "last effs = Logged Error [S name, S '' failed (attempt '', I M, S ''/'', I M, S '')'']
                             [(''error'', S (err_message (err M)))]"
      using withRetry_loop_index_exhausts [OF assms(1) run, of name]
      by (auto simp: withRetry_index_def)
    then show ?thesis
      by (subst withRetry_index_scripted) simp
  qed
  have bounds: "\<exists>d. getBackoffDelay (rand k) k = Fin d
             \<and> min (1000 * 2 ^ nat (k - 1)) 30000 \<le> d \<and> d \<le> min (1100 * 2 ^ nat (k - 1)) 30000"
    if k: "1 \<le> k" "k \<le> 1015 \<or> jmul (rand k) (Fin tenth) \<noteq> Fin 0" for k
  proof -
    from assms(2) have "unitDraw (rand k)" by simp
    then obtain x where x: "rand k = Fin x" "0 \<le> x" "x < 1"
      by (cases "rand k") (auto simp: unitDraw_def)
    show ?thesis
    proof (cases "k \<le> 5")
      case True
      from getBackoffDelay_small [OF x(2,3) k(1) True] obtain d where
        d: "getBackoffDelay (Fin x) k = Fin d" "1000 * 2 ^ nat (k - 1) \<le> d" "d \<le> 1100 * 2 ^ nat (k - 1)"
        by blast
      have "(2::real) ^ nat (k - 1) \<le> 2 ^ 4"
        by (rule power_increasing) (use True in simp_all)
      then have "(1100::real) * 2 ^ nat (k - 1) \<le> 30000" by simp
      with d show ?thesis by (simp add: x(1))
    next
      case False
      then have six: "6 \<le> k" by simp
      have "(2::real) ^ 5 \<le> 2 ^ nat (k - 1)"
        by (rule power_increasing) (use six in simp_all)
      then have big: "(30000::real) \<le> 1000 * 2 ^ nat (k - 1)" by simp
      have "getBackoffDelay (Fin x) k = Fin 30000"
      proof (cases "k \<le> 1015")
        case True
        then show ?thesis by (rule getBackoffDelay_capped [OF x(2,3) six])
      next
        case False
        then have "1016 \<le> k" "jmul (Fin x) (Fin tenth) \<noteq> Fin 0"
          using k(2) by (simp_all add: x(1))
        then show ?thesis by (rule getBackoffDelay_beyond [OF x(2,3)])
      qed
      then show ?thesis
        using big by (simp add: x(1))
    qed
  qed
  have exact_i: "jmul (Fin CONFIG_retryDelay_index) (Math_pow2 (k - 1)) = Fin (2000 * 2 ^ nat (k - 1))"
    if "1 \<le> k" "k \<le> 1014" for k
    using that by (rule index_delay_exact)
  show ?thesis
    using calls calls_i succ succ_i fail fail_i bounds exact_i by blast
qed

theorem withRetry_policy_witness:
  "(1::int) \<le> 3 \<and> (\<forall>k::int. unitDraw (Fin (1 - 1 / 2 ^ 53)))
   \<and> invocation (scripted (\<lambda>i. if i < 3 then Inl econnreset else Inr (7::nat))) 0 1 = Inl econnreset
   \<and> invocation (scripted (\<lambda>i. if i < 3 then Inl econnreset else Inr (7::nat))) 0 2 = Inl econnreset
   \<and> invocation (scripted (\<lambda>i. if i < 3 then Inl econnreset else Inr (7::nat))) 0 3 = Inr 7
   \<and> (\<exists>effs. withRetry (\<lambda>k. Fin (1 - 1 / 2 ^ 53))
                 (scripted (\<lambda>i. if i < 3 then Inl econnreset else Inr (7::nat)))
                 ''uploadSessionToBucket'' 3 0 = (Inr (Some 7), 3, effs)
          \<and> sleeps effs = [Fin 1100, Fin 2200])
   \<and> (\<exists>effs. withRetry (\<lambda>k. Fin (1 - 1 / 2 ^ 53)) (scripted (\<lambda>i. Inl econnreset :: js_error + nat))
                 ''uploadSessionToBucket'' 3 0 = (Inl econnreset, 3, effs)
          \<and> sleeps effs = [Fin 1100, Fin 2200])
   \<and> (\<exists>effs. withRetry_index (scripted (\<lambda>i. Inl econnreset :: js_error + nat))
                 ''uploadSessionToBucket'' 3 0 = (Inl econnreset, 3, effs)
          \<and> sleeps effs = [Fin 2000, Fin 4000])"
proof -
  let ?flaky = "scripted (\<lambda>i. if i < 3 then Inl econnreset else Inr (7::nat))"
  let ?down = "scripted (\<lambda>i. Inl econnreset :: js_error + nat)"
  let ?r = "\<lambda>k::int. Fin (1 - 1 / 2 ^ 53)"
  have up: "[1..(2::int)] = [1, 2]" by (simp add: upto_rec1)
  have f: "invocation ?flaky 0 1 = Inl econnreset" "invocation ?flaky 0 2 = Inl econnreset"
      "invocation ?flaky 0 3 = Inr 7"
    by (simp_all add: invocation_scripted)
  have fa: "\<forall>i. 1 \<le> i \<and> i < 3 \<longrightarrow> isl (invocation ?flaky 0 i)"
    by (simp add: invocation_scripted)
  have da: "\<forall>i. 1 \<le> i \<and> i \<le> 3 \<longrightarrow> invocation ?down 0 i = Inl econnreset"
    by (simp add: invocation_scripted)
  have h: "(1::int) \<le> 3" "\<forall>k::int. unitDraw (?r k)"
    by (simp_all add: unitDraw_def)
  have g: "getBackoffDelay (Fin (1 - 1 / 2 ^ 53)) 1 = Fin 1100"
      "getBackoffDelay (Fin (1 - 1 / 2 ^ 53)) 2 = Fin 2200"
    by (simp_all add: getBackoffDelay_def CONFIG_baseRetryDelay_def CONFIG_maxRetryDelay_def
        Math_pow2_def Math_min_def jadd_def jmul_def tenth_def fl_def nearest_def quantum_def
        ilog2_def rne_def two_to_def Let_def compute_bitlen)
  have gi: "jmul (Fin CONFIG_retryDelay_index) (Math_pow2 0) = Fin 2000"
      "jmul (Fin CONFIG_retryDelay_index) (Math_pow2 1) = Fin 4000"
    using index_delay_exact [of 1] index_delay_exact [of 2] by simp_all
  have a: "\<exists>effs. withRetry ?r ?flaky ''uploadSessionToBucket'' 3 0 = (Inr (Some 7), 3, effs)
          \<and> sleeps effs = [Fin 1100, Fin 2200]"
    using withRetry_policy [OF h, of ?flaky "''uploadSessionToBucket''" 0 3 7] fa f(3) g
    by (simp add: up worldAfter_scripted)
  have b: "(\<exists>effs. withRetry ?r ?down ''uploadSessionToBucket'' 3 0 = (Inl econnreset, 3, effs)
          \<and> sleeps effs = [Fin 1100, Fin 2200])
        \<and> (\<exists>effs. withRetry_index ?down ''uploadSessionToBucket'' 3 0 = (Inl econnreset, 3, effs)
          \<and> sleeps effs = [Fin 2000, Fin 4000])"
    using withRetry_policy [OF h, of ?down "''uploadSessionToBucket''" 0 _ _ "\<lambda>i. econnreset"] da g gi
    by (simp add: up worldAfter_scripted) blast
  show ?thesis
    using h f a b by blast
qed

text \<open>
  The error that reaches the caller is the operation's own error: its message is the
  operation's message, with no attempt count and no operation name. In \<^verbatim>\<open>src/index.js\<close>
  six failing attempts sleep 2000, 4000, 8000, 16000 and 32000 ms: nothing random, and
  nothing keeps the delay below a maximum. In the production server, when 1017 attempts
  fail and the draw after the 1016th is zero, the delay passed to \<^verbatim>\<open>sleep\<close> is \<^verbatim>\<open>NaN\<close>:
  \<^verbatim>\<open>1000 * Math.pow(2, 1015)\<close> is \<^verbatim>\<open>Infinity\<close>, the jitter \<^verbatim>\<open>0 * 0.1 * Infinity\<close> is \<^verbatim>\<open>NaN\<close>, and
  \<^verbatim>\<open>Math.min\<close> returns \<^verbatim>\<open>NaN\<close>. In \<^verbatim>\<open>src/index.js\<close> the delay after the 1015th failure is
  \<^verbatim>\<open>Infinity\<close>.
\<close>

theorem withRetry_tag_counterexample:
  "fst (withRetry (\<lambda>k. Fin 0) (scripted (\<lambda>i. Inl econnreset :: js_error + nat))
          ''clearSessionFromBucket'' 3 0)
     = Inl \<lparr>err_message = ''ECONNRESET'', err_code = None\<rparr>
   \<and> sleeps (snd (snd (withRetry_index (scripted (\<lambda>i. Inl econnreset :: js_error + nat))
          ''clearSessionFromBucket'' 6 0)))
       = [Fin 2000, Fin 4000, Fin 8000, Fin 16000, Fin 32000]
   \<and> sleeps (snd (snd (withRetry (\<lambda>k. Fin 0) (scripted (\<lambda>i. Inl econnreset :: js_error + nat))
          ''clearSessionFromBucket'' 1017 0))) ! 1015 = NaN
   \<and> sleeps (snd (snd (withRetry_index (scripted (\<lambda>i. Inl econnreset :: js_error + nat))
          ''clearSessionFromBucket'' 1016 0))) ! 1014 = PosInf"
proof -
  let ?down = "scripted (\<lambda>i. Inl econnreset :: js_error + nat)"
  have up: "[1..(5::int)] = [1, 2, 3, 4, 5]" by (simp add: upto_rec1)
  have fails: "\<forall>i. a \<le> i \<and> i \<le> M \<longrightarrow> (\<lambda>i. Inl econnreset :: js_error + nat) i = Inl ((\<lambda>i. econnreset) i)"
    for a M :: int
    by simp
  from withRetry_loop_exhausts [of 1 3 _ "\<lambda>i. econnreset", OF _ fails, of "\<lambda>k. Fin 0" "''clearSessionFromBucket''"]
  have one: "fst (withRetry (\<lambda>k. Fin 0) ?down ''clearSessionFromBucket'' 3 0)
               = Inl \<lparr>err_message = ''ECONNRESET'', err_code = None\<rparr>"
    by (auto simp: withRetry_def econnreset_def)
  from withRetry_loop_index_exhausts [of 1 6 _ "\<lambda>i. econnreset", OF _ fails, of "''clearSessionFromBucket''"]
  have two: "sleeps (snd (snd (withRetry_index ?down ''clearSessionFromBucket'' 6 0)))
               = map (\<lambda>k. jmul (Fin CONFIG_retryDelay_index) (Math_pow2 (k - 1))) [1..5]"
    by (auto simp: withRetry_index_def)
  have "jmul (Fin CONFIG_retryDelay_index) (Math_pow2 (k - 1)) = Fin (2000 * 2 ^ nat (k - 1))"
    if "1 \<le> k" "k \<le> 5" for k
    using that by (intro index_delay_exact) simp_all
  from this [of 1] this [of 2] this [of 3] this [of 4] this [of 5]
  have two': "sleeps (snd (snd (withRetry_index ?down ''clearSessionFromBucket'' 6 0)))
               = [Fin 2000, Fin 4000, Fin 8000, Fin 16000, Fin 32000]"
    unfolding two up by simp
  from withRetry_loop_exhausts [of 1 1017 _ "\<lambda>i. econnreset", OF _ fails, of "\<lambda>k. Fin 0" "''clearSessionFromBucket''"]
  have "sleeps (snd (snd (withRetry (\<lambda>k. Fin 0) ?down ''clearSessionFromBucket'' 1017 0)))
               = map (\<lambda>k. getBackoffDelay (Fin 0) k) [1..1016]"
    by (auto simp: withRetry_def)
  then have three: "sleeps (snd (snd (withRetry (\<lambda>k. Fin 0) ?down ''clearSessionFromBucket'' 1017 0))) ! 1015
               = NaN"
    using nth_upto_int [of 1015 1 1016] getBackoffDelay_zero_draw [of 1016] by simp
  from withRetry_loop_index_exhausts [of 1 1016 _ "\<lambda>i. econnreset", OF _ fails, of "''clearSessionFromBucket''"]
  have "sleeps (snd (snd (withRetry_index ?down ''clearSessionFromBucket'' 1016 0)))
               = map (\<lambda>k. jmul (Fin CONFIG_retryDelay_index) (Math_pow2 (k - 1))) [1..1015]"
    by (auto simp: withRetry_index_def)
  then have four: "sleeps (snd (snd (withRetry_index ?down ''clearSessionFromBucket'' 1016 0))) ! 1014
               = PosInf"
    using nth_upto_int [of 1014 1 1015] index_delay_overflow [of 1015] by simp
  show ?thesis
    using one two' three four by simp
qed

text \<open>
  C10. With \<open>maxRetries\<close> below 1 the loop body never runs: \<^verbatim>\<open>withRetry\<close> returns
  \<^verbatim>\<open>undefined\<close> (\<open>Inr None\<close>), the world the operation acts on is untouched, so the operation
  was not invoked, and nothing is logged or thrown. Both entry points agree.
\<close>

theorem withRetry_zero_attempts:
  "maxRetries < 1 \<Longrightarrow>
     withRetry rand operation operationName maxRetries w = (Inr None, w, [])
     \<and> withRetry_index operation operationName maxRetries w = (Inr None, w, [])"
  by (simp add: withRetry_def withRetry_index_def withRetry_loop.simps withRetry_loop_index.simps)

theorem withRetry_zero_attempts_witness:
  "(0::int) < 1
   \<and> withRetry (\<lambda>k. Fin 0) (scripted (\<lambda>i. Inl econnreset :: js_error + nat)) ''downloadSessionFromBucket'' 0 0
       = (Inr None, 0, [])
   \<and> withRetry_index (scripted (\<lambda>i. Inl econnreset :: js_error + nat)) ''downloadSessionFromBucket'' 0 0
       = (Inr None, 0, [])"
  using withRetry_zero_attempts [of 0 "\<lambda>k. Fin 0" "scripted (\<lambda>i. Inl econnreset :: js_error + nat)"
      "''downloadSessionFromBucket''" 0]
  by simp

subsection \<open>Message queue\<close>

lemma arrive_appends: "\<exists>extra. arrive as q = q @ extra \<and> set extra \<subseteq> set as"
proof (induction as arbitrary: q)
  case Nil
  show ?case by simp
next
  case (Cons a as)
  show ?case
  proof (cases "CONFIG_messageQueueMaxSize \<le> length q")
    case True
    then have "arrive (a # as) q = arrive as q"
      by (simp add: enqueue_def split: sum.splits)
    with Cons [of q] show ?thesis by auto
  next
    case False
    then have "arrive (a # as) q = arrive as (q @ [a])"
      by (cases a) (simp add: enqueue_def)
    with Cons [of "q @ [a]"] show ?thesis by auto
  qed
qed

lemma sendItem_retries [simp]: "sendItem t (item\<lparr>retries := n\<rparr>) = sendItem t item"
  by (simp add: sendItem_def)

lemma arrivals_Cons:
  "arrivals (t # ts) = set (duringSend t) \<union> set (duringRetryDelay t) \<union> set (duringRateLimit t) \<union> arrivals ts"
  by (auto simp: arrivals_def)

lemma arrivals_Nil [simp]: "arrivals [] = {}"
  by (simp add: arrivals_def)

lemma arrivals_append: "arrivals (ts @ us) = arrivals ts \<union> arrivals us"
  by (auto simp: arrivals_def)

lemma body_requeues:
  assumes "isl (sendItem t item)" and "1 < retries item"
  shows "\<exists>extra. processQueue_body t item rest =
           ((item, sendItem t item), item\<lparr>retries := retries item - 1\<rparr> # rest @ extra)
         \<and> set extra \<subseteq> arrivals [t]"
proof -
  obtain e where e: "sendItem t item = Inl e"
    using assms(1) by (cases "sendItem t item") auto
  obtain x1 where x1: "arrive (duringSend t) rest = rest @ x1" "set x1 \<subseteq> set (duringSend t)"
    using arrive_appends by blast
  obtain x2 where x2:
    "arrive (duringRetryDelay t) (item\<lparr>retries := retries item - 1\<rparr> # rest @ x1)
       = (item\<lparr>retries := retries item - 1\<rparr> # rest @ x1) @ x2"
    "set x2 \<subseteq> set (duringRetryDelay t)"
    using arrive_appends by blast
  obtain x3 where x3:
    "arrive (duringRateLimit t) ((item\<lparr>retries := retries item - 1\<rparr> # rest @ x1) @ x2)
       = ((item\<lparr>retries := retries item - 1\<rparr> # rest @ x1) @ x2) @ x3"
    "set x3 \<subseteq> set (duringRateLimit t)"
    using arrive_appends by blast
  have "processQueue_body t item rest =
          ((item, sendItem t item), item\<lparr>retries := retries item - 1\<rparr> # rest @ (x1 @ x2 @ x3))"
    using e assms(2) x1(1) x2(1) x3(1) by (simp add: processQueue_body_def)
  moreover have "set (x1 @ x2 @ x3) \<subseteq> arrivals [t]"
    using x1(2) x2(2) x3(2) by (auto simp: arrivals_Cons)
  ultimately show ?thesis by blast
qed

lemma body_drops:
  assumes "isl (sendItem t item)" and "retries item \<le> 1"
  shows "\<exists>extra. processQueue_body t item rest = ((item, sendItem t item), rest @ extra)
         \<and> set extra \<subseteq> arrivals [t]"
proof -
  obtain e where e: "sendItem t item = Inl e"
    using assms(1) by (cases "sendItem t item") auto
  obtain x1 where x1: "arrive (duringSend t) rest = rest @ x1" "set x1 \<subseteq> set (duringSend t)"
    using arrive_appends by blast
  obtain x3 where x3: "arrive (duringRateLimit t) (rest @ x1) = (rest @ x1) @ x3"
    "set x3 \<subseteq> set (duringRateLimit t)"
    using arrive_appends by blast
  have "processQueue_body t item rest = ((item, sendItem t item), rest @ (x1 @ x3))"
    using e assms(2) x1(1) x3(1) by (simp add: processQueue_body_def)
  moreover have "set (x1 @ x3) \<subseteq> arrivals [t]"
    using x1(2) x3(2) by (auto simp: arrivals_Cons)
  ultimately show ?thesis by blast
qed

lemma processQueue_append:
  "processQueue (ts @ us) q =
     (fst (processQueue ts q) @ fst (processQueue us (snd (processQueue ts q))),
      snd (processQueue us (snd (processQueue ts q))))"
proof (induction ts q rule: processQueue.induct)
  case (1 ts)
  show ?case by (cases us) simp_all
next
  case (2 item rest)
  show ?case by simp
next
  case (3 t ts item rest)
  obtain attempt q where b: "processQueue_body t item rest = (attempt, q)"
    by (cases "processQueue_body t item rest")
  show ?case
    using 3 [OF b [symmetric] refl] b by (simp add: split_beta)
qed

lemma attemptsOn_Cons:
  "attemptsOn (t # ts) item = (item, sendItem t item) # attemptsOn ts (item\<lparr>retries := retries item - 1\<rparr>)"
proof -
  have "[0..<length (t # ts)] = 0 # map Suc [0..<length ts]"
    by (simp add: upt_conv_Cons map_Suc_upt del: upt_Suc)
  then show ?thesis
    by (simp add: attemptsOn_def comp_def algebra_simps del: upt_Suc)
qed

lemma stays_in_front:
  assumes "int (length ts) < retries item"
    and "\<forall>t \<in> set ts. isl (sendItem t item)"
  shows "\<exists>extra. processQueue ts (item # rest) =
           (attemptsOn ts item, item\<lparr>retries := retries item - int (length ts)\<rparr> # rest @ extra)
         \<and> set extra \<subseteq> arrivals ts"
  using assms
proof (induction ts arbitrary: item rest)
  case Nil
  show ?case by (simp add: attemptsOn_def)
next
  case (Cons t ts)
  have fail: "isl (sendItem t item)" and more: "1 < retries item"
    using Cons.prems by auto
  obtain x where x: "processQueue_body t item rest =
       ((item, sendItem t item), item\<lparr>retries := retries item - 1\<rparr> # rest @ x)"
     "set x \<subseteq> arrivals [t]"
    using body_requeues [OF fail more] by blast
  let ?item = "item\<lparr>retries := retries item - 1\<rparr>"
  have p1: "int (length ts) < retries ?item" using Cons.prems(1) by simp
  have p2: "\<forall>t \<in> set ts. isl (sendItem t ?item)" using Cons.prems(2) by simp
  obtain y where y: "processQueue ts (?item # (rest @ x)) =
       (attemptsOn ts ?item, ?item\<lparr>retries := retries ?item - int (length ts)\<rparr> # (rest @ x) @ y)"
     "set y \<subseteq> arrivals ts"
    using Cons.IH [OF p1 p2] by blast
  have "processQueue (t # ts) (item # rest) =
          (attemptsOn (t # ts) item, item\<lparr>retries := retries item - int (length (t # ts))\<rparr> # rest @ (x @ y))"
    using x(1) y(1) by (simp add: attemptsOn_Cons algebra_simps)
  moreover have "set (x @ y) \<subseteq> arrivals (t # ts)"
    using x(2) y(2) by (auto simp: arrivals_Cons)
  ultimately show ?case by blast
qed


lemma last_attempt_drops:
  assumes "retries item = 1" and "isl (sendItem t item)"
  shows "\<exists>extra. set extra \<subseteq> arrivals [t]
           \<and> processQueue (t # later) (item # rest) =
               ((item, sendItem t item) # fst (processQueue later (rest @ extra)),
                snd (processQueue later (rest @ extra)))"
proof -
  obtain x where x: "processQueue_body t item rest = ((item, sendItem t item), rest @ x)"
      "set x \<subseteq> arrivals [t]"
    using body_drops [OF assms(2), of rest] assms(1) by auto
  have "processQueue (t # later) (item # rest) =
               ((item, sendItem t item) # fst (processQueue later (rest @ x)),
                snd (processQueue later (rest @ x)))"
    using x(1) by (simp add: split_beta)
  with x(2) show ?thesis by blast
qed

lemma attemptsOn_snoc:
  "attemptsOn (ts @ [t]) item =
     attemptsOn ts item @ [(item\<lparr>retries := retries item - int (length ts)\<rparr>, sendItem t item)]"
  by (simp add: attemptsOn_def nth_append)

lemma body_result:
  "\<exists>extra. set extra \<subseteq> arrivals [t]
     \<and> (snd (processQueue_body t p q) = q @ extra
        \<or> (1 < retries p \<and> snd (processQueue_body t p q) = p\<lparr>retries := retries p - 1\<rparr> # q @ extra))"
proof (cases "sendItem t p")
  case (Inr messageId)
  obtain x1 where x1: "arrive (duringSend t) q = q @ x1" "set x1 \<subseteq> set (duringSend t)"
    using arrive_appends by blast
  obtain x3 where x3: "arrive (duringRateLimit t) (q @ x1) = (q @ x1) @ x3"
    "set x3 \<subseteq> set (duringRateLimit t)"
    using arrive_appends by blast
  have "snd (processQueue_body t p q) = q @ (x1 @ x3)"
    using Inr x1(1) x3(1) by (simp add: processQueue_body_def)
  moreover have "set (x1 @ x3) \<subseteq> arrivals [t]"
    using x1(2) x3(2) by (auto simp: arrivals_Cons)
  ultimately show ?thesis by blast
next
  case (Inl e)
  then have fail: "isl (sendItem t p)" by simp
  show ?thesis
  proof (cases "1 < retries p")
    case True
    from body_requeues [OF fail True, of q] obtain x where
      "processQueue_body t p q = ((p, sendItem t p), p\<lparr>retries := retries p - 1\<rparr> # q @ x)"
      "set x \<subseteq> arrivals [t]"
      by blast
    then show ?thesis using True by auto
  next
    case False
    then have "retries p \<le> 1" by simp
    from body_drops [OF fail this, of q] obtain x where
      "processQueue_body t p q = ((p, sendItem t p), q @ x)" "set x \<subseteq> arrivals [t]"
      by blast
    then show ?thesis by auto
  qed
qed

lemma head_leaves:
  "n = nat (max 1 (retries p)) \<Longrightarrow> n \<le> length ts \<Longrightarrow>
     \<exists>k extra. k \<le> n \<and> 0 < k \<and> set extra \<subseteq> arrivals (take k ts)
        \<and> snd (processQueue (take k ts) (p # q)) = q @ extra"
proof (induction n arbitrary: p q ts)
  case 0
  then show ?case by simp
next
  case (Suc n)
  then obtain t us where ts: "ts = t # us" by (cases ts) auto
  obtain x where x: "set x \<subseteq> arrivals [t]"
      "snd (processQueue_body t p q) = q @ x
        \<or> (1 < retries p \<and> snd (processQueue_body t p q) = p\<lparr>retries := retries p - 1\<rparr> # q @ x)"
    using body_result by blast
  from x(2) show ?case
  proof
    assume gone: "snd (processQueue_body t p q) = q @ x"
    have "snd (processQueue (take 1 ts) (p # q)) = q @ x"
      using gone by (cases "q @ x") (simp_all add: ts split_beta)
    moreover have "set x \<subseteq> arrivals (take 1 ts)"
      using x(1) by (simp add: ts)
    ultimately show ?thesis
      by (intro exI [of _ 1] exI [of _ x]) simp
  next
    assume "1 < retries p \<and> snd (processQueue_body t p q) = p\<lparr>retries := retries p - 1\<rparr> # q @ x"
    then have more: "1 < retries p"
      and requeued: "snd (processQueue_body t p q) = p\<lparr>retries := retries p - 1\<rparr> # q @ x"
      by simp_all
    let ?p = "p\<lparr>retries := retries p - 1\<rparr>"
    have n: "n = nat (max 1 (retries ?p))" using Suc.prems(1) more by simp
    have len: "n \<le> length us" using Suc.prems(2) ts by simp
    from Suc.IH [OF n len, of "q @ x"] obtain k y where k:
      "k \<le> n" "0 < k" "set y \<subseteq> arrivals (take k us)"
      "snd (processQueue (take k us) (?p # q @ x)) = (q @ x) @ y"
      by blast
    have "snd (processQueue (take (Suc k) ts) (p # q)) = q @ (x @ y)"
      using requeued k(4) by (simp add: ts split_beta)
    moreover have "set (x @ y) \<subseteq> arrivals (take (Suc k) ts)"
      using x(1) k(3) by (auto simp: ts arrivals_Cons)
    ultimately show ?thesis
      using k(1) by (intro exI [of _ "Suc k"] exI [of _ "x @ y"]) simp
  qed
qed

lemma front_reached:
  "budget ahead \<le> length ts \<Longrightarrow>
     \<exists>k extra. k \<le> budget ahead \<and> set extra \<subseteq> arrivals (take k ts)
        \<and> snd (processQueue (take k ts) (ahead @ item # rest)) = item # rest @ extra"
proof (induction ahead arbitrary: ts rest)
  case Nil
  have "snd (processQueue (take 0 ts) ([] @ item # rest)) = item # rest @ []" by simp
  then show ?case
    by (intro exI [of _ 0] exI [of _ "[]"]) simp
next
  case (Cons p ahead)
  let ?n = "nat (max 1 (retries p))"
  have len: "?n \<le> length ts" using Cons.prems by simp
  from head_leaves [OF refl len, of "ahead @ item # rest"] obtain k x where k:
    "k \<le> ?n" "0 < k" "set x \<subseteq> arrivals (take k ts)"
    "snd (processQueue (take k ts) (p # ahead @ item # rest)) = (ahead @ item # rest) @ x"
    by blast
  have len2: "budget ahead \<le> length (drop k ts)" using Cons.prems k(1) by simp
  from Cons.IH [OF len2, of "rest @ x"] obtain j y where j:
    "j \<le> budget ahead" "set y \<subseteq> arrivals (take j (drop k ts))"
    "snd (processQueue (take j (drop k ts)) (ahead @ item # rest @ x)) = item # (rest @ x) @ y"
    by blast
  have split: "take (k + j) ts = take k ts @ take j (drop k ts)"
    by (simp add: take_add)
  have "snd (processQueue (take (k + j) ts) ((p # ahead) @ item # rest)) = item # rest @ (x @ y)"
    unfolding split using k(4) j(3) by (simp add: processQueue_append)
  moreover have "set (x @ y) \<subseteq> arrivals (take (k + j) ts)"
    unfolding split using k(3) j(2) by (auto simp: arrivals_append)
  moreover have "k + j \<le> budget (p # ahead)" using k(1) j(1) by simp
  ultimately show ?case by blast
qed

text \<open>
  C1. A message enqueued while the queue has room goes to the back of the queue with its
  \<open>N\<close> retries. With the messages \<open>ahead\<close> in front of it, it is at the front, its retries
  untouched, after at most \<open>budget ahead\<close> iterations of the drain loop. From then on, let
  \<open>retries item = N \<ge> 1\<close> and let every send attempt for it during the next \<open>N\<close> iterations
  fail. Then after each of the first \<open>k < N\<close> failures the item is back at the front of the
  queue, before the messages that were behind it and before everything enqueued
  meanwhile, with \<open>k\<close> retries taken off; the \<open>N\<close> attempts of these iterations are all made
  on it, with \<open>N, N - 1, ..., 1\<close> retries left; and after the \<open>N\<close>-th failure the loop goes on
  with a queue that holds only the messages that were behind it and those enqueued
  meanwhile: the item is gone and is not attempted again.
\<close>

theorem retry_budget:
  assumes "1 \<le> retries item"
    and "length ts = nat (retries item)"
    and "\<forall>t \<in> set ts. isl (sendItem t item)"
  shows "(\<forall>k < length ts. \<exists>extra. set extra \<subseteq> arrivals (take k ts)
            \<and> processQueue (take k ts) (item # rest) =
                (attemptsOn (take k ts) item, item\<lparr>retries := retries item - int k\<rparr> # rest @ extra))
       \<and> (\<exists>extra. set extra \<subseteq> arrivals ts
            \<and> processQueue (ts @ later) (item # rest) =
                (attemptsOn ts item @ fst (processQueue later (rest @ extra)),
                 snd (processQueue later (rest @ extra))))
       \<and> map fst (attemptsOn ts item) =
            map (\<lambda>k. item\<lparr>retries := retries item - int k\<rparr>) [0..<nat (retries item)]
       \<and> (budget ahead \<le> length before \<longrightarrow>
            (\<exists>k extra. k \<le> budget ahead \<and> set extra \<subseteq> arrivals (take k before)
               \<and> snd (processQueue (take k before) (ahead @ item # rest)) = item # rest @ extra))
       \<and> (length (queue mq) < CONFIG_messageQueueMaxSize \<longrightarrow>
            enqueue (to item) (message item) (retries item) (timestamp item) mq =
              (Inr True, mq\<lparr>queue := queue mq @ [item]\<rparr>, \<not> processing mq))"
proof (intro conjI allI impI)
  fix k assume k: "k < length ts"
  have len: "int (length (take k ts)) < retries item"
    using k assms(2) by simp
  have fails: "\<forall>t \<in> set (take k ts). isl (sendItem t item)"
    using assms(3) by (meson in_set_takeD)
  obtain extra where "processQueue (take k ts) (item # rest) =
           (attemptsOn (take k ts) item,
            item\<lparr>retries := retries item - int (length (take k ts))\<rparr> # rest @ extra)"
      "set extra \<subseteq> arrivals (take k ts)"
    using stays_in_front [OF len fails, of rest] by blast
  moreover have "length (take k ts) = k" using k by simp
  ultimately show "\<exists>extra. set extra \<subseteq> arrivals (take k ts)
            \<and> processQueue (take k ts) (item # rest) =
                (attemptsOn (take k ts) item, item\<lparr>retries := retries item - int k\<rparr> # rest @ extra)"
    by auto
next
  have ne: "ts \<noteq> []" using assms(1,2) by auto
  define us where "us = butlast ts"
  define t where "t = last ts"
  have ts: "ts = us @ [t]" using ne by (simp add: us_def t_def)
  have len: "int (length us) < retries item" using assms(2) ts by simp
  have len1: "retries item - int (length us) = 1" using assms(1,2) ts by simp
  have fails: "\<forall>t \<in> set us. isl (sendItem t item)" using assms(3) ts by simp
  have fail: "isl (sendItem t item)" using assms(3) ts by simp
  obtain x where x: "processQueue us (item # rest) =
           (attemptsOn us item, item\<lparr>retries := retries item - int (length us)\<rparr> # rest @ x)"
      "set x \<subseteq> arrivals us"
    using stays_in_front [OF len fails, of rest] by blast
  let ?item = "item\<lparr>retries := 1\<rparr>"
  have l: "retries ?item = 1" "isl (sendItem t ?item)" using fail by simp_all
  obtain y where y: "set y \<subseteq> arrivals [t]"
      "processQueue (t # later) (?item # (rest @ x)) =
               ((?item, sendItem t ?item) # fst (processQueue later ((rest @ x) @ y)),
                snd (processQueue later ((rest @ x) @ y)))"
    using last_attempt_drops [OF l, of later "rest @ x"] by blast
  have "processQueue (ts @ later) (item # rest) =
          (attemptsOn ts item @ fst (processQueue later (rest @ (x @ y))),
           snd (processQueue later (rest @ (x @ y))))"
    unfolding ts using x(1) y(2) len1
    by (simp add: processQueue_append [of us "t # later"] attemptsOn_snoc)
  moreover have "set (x @ y) \<subseteq> arrivals ts"
    unfolding ts using x(2) y(1) by (auto simp: arrivals_append)
  ultimately show "\<exists>extra. set extra \<subseteq> arrivals ts
            \<and> processQueue (ts @ later) (item # rest) =
                (attemptsOn ts item @ fst (processQueue later (rest @ extra)),
                 snd (processQueue later (rest @ extra)))"
    by blast
next
  show "map fst (attemptsOn ts item) =
            map (\<lambda>k. item\<lparr>retries := retries item - int k\<rparr>) [0..<nat (retries item)]"
    using assms(2) by (simp add: attemptsOn_def comp_def)
next
  assume "budget ahead \<le> length before"
  then show "\<exists>k extra. k \<le> budget ahead \<and> set extra \<subseteq> arrivals (take k before)
               \<and> snd (processQueue (take k before) (ahead @ item # rest)) = item # rest @ extra"
    by (rule front_reached)
next
  assume "length (queue mq) < CONFIG_messageQueueMaxSize"
  then show "enqueue (to item) (message item) (retries item) (timestamp item) mq =
              (Inr True, mq\<lparr>queue := queue mq @ [item]\<rparr>, \<not> processing mq)"
    by (cases item) (simp add: enqueue_def)
qed

theorem retry_budget_witness:
  "1 \<le> retries testMessage \<and> length threeTicks = nat (retries testMessage)
   \<and> isl (sendItem offline testMessage)
   \<and> isl (sendItem (offline\<lparr>duringRetryDelay := [newer]\<rparr>) testMessage)
   \<and> (\<exists>extra. set extra \<subseteq> arrivals (take 2 threeTicks)
          \<and> processQueue (take 2 threeTicks) [testMessage] =
              (attemptsOn (take 2 threeTicks) testMessage, testMessage\<lparr>retries := 1\<rparr> # extra))
   \<and> (\<exists>extra. set extra \<subseteq> arrivals threeTicks
          \<and> processQueue (threeTicks @ [online]) [testMessage] =
              (attemptsOn threeTicks testMessage @ fst (processQueue [online] extra),
               snd (processQueue [online] extra)))
   \<and> budget [newer] \<le> length [online]
   \<and> (\<exists>k extra. k \<le> budget [newer] \<and> set extra \<subseteq> arrivals (take k [online])
          \<and> snd (processQueue (take k [online]) [newer, testMessage]) = testMessage # extra)
   \<and> length (queue idle) < CONFIG_messageQueueMaxSize
   \<and> enqueue (JStr ''+5511999999999'') (JStr ''Test'') 3 0 idle =
        (Inr True, idle\<lparr>queue := [testMessage]\<rparr>, True)"
proof -
  have h1: "1 \<le> retries testMessage"
    by (simp add: testMessage_def)
  have h2: "length threeTicks = nat (retries testMessage)"
    by (simp add: testMessage_def threeTicks_def)
  have f1: "isl (sendItem offline testMessage)"
    by (simp add: sendItem_def MessageQueue_sendMessage_def offline_def)
  have f2: "isl (sendItem (offline\<lparr>duringRetryDelay := [newer]\<rparr>) testMessage)"
    by (simp add: sendItem_def MessageQueue_sendMessage_def offline_def)
  have h3: "\<forall>t \<in> set threeTicks. isl (sendItem t testMessage)"
    using f1 f2 by (simp add: threeTicks_def)
  note r = retry_budget [OF h1 h2 h3, of "[]" "[online]" "[newer]" "[online]" idle]
  have g: "budget [newer] \<le> length [online]"
    by (simp add: newer_def)
  have room: "length (queue idle) < CONFIG_messageQueueMaxSize" "queue idle = []" "\<not> processing idle"
    by (simp_all add: idle_def CONFIG_messageQueueMaxSize_def)
  have fields: "to testMessage = JStr ''+5511999999999''" "message testMessage = JStr ''Test''"
      "retries testMessage = 3" "timestamp testMessage = 0"
    by (simp_all add: testMessage_def)
  from r g have c: "\<exists>k extra. k \<le> budget [newer] \<and> set extra \<subseteq> arrivals (take k [online])
          \<and> snd (processQueue (take k [online]) [newer, testMessage]) = testMessage # extra"
    by simp
  from r room(1) have "enqueue (to testMessage) (message testMessage) (retries testMessage)
         (timestamp testMessage) idle
       = (Inr True, idle\<lparr>queue := queue idle @ [testMessage]\<rparr>, \<not> processing idle)"
    by blast
  then have d: "enqueue (JStr ''+5511999999999'') (JStr ''Test'') 3 0 idle =
        (Inr True, idle\<lparr>queue := [testMessage]\<rparr>, True)"
    unfolding fields using room(2,3) by simp
  have two: "2 < length threeTicks" "retries testMessage - int 2 = 1"
    by (simp_all add: threeTicks_def testMessage_def)
  from r have "\<exists>extra. set extra \<subseteq> arrivals (take 2 threeTicks)
          \<and> processQueue (take 2 threeTicks) [testMessage] =
              (attemptsOn (take 2 threeTicks) testMessage,
               testMessage\<lparr>retries := retries testMessage - int 2\<rparr> # [] @ extra)"
    using two(1) by blast
  then have a: "\<exists>extra. set extra \<subseteq> arrivals (take 2 threeTicks)
          \<and> processQueue (take 2 threeTicks) [testMessage] =
              (attemptsOn (take 2 threeTicks) testMessage, testMessage\<lparr>retries := 1\<rparr> # extra)"
    unfolding two(2) by simp
  from r have b: "\<exists>extra. set extra \<subseteq> arrivals threeTicks
          \<and> processQueue (threeTicks @ [online]) [testMessage] =
              (attemptsOn threeTicks testMessage @ fst (processQueue [online] extra),
               snd (processQueue [online] extra))"
    by simp
  show ?thesis
    using h1 h2 f1 f2 a b g c room(1) d by blast
qed

subsection \<open>Session lock\<close>

lemma nextFault_reliable: "reliable w \<Longrightarrow> nextFault c w = (None, served c w)"
  by (cases "faults w") (auto simp: nextFault_def served_def reliable_def)

lemma reliable_served [simp]: "reliable w \<Longrightarrow> reliable (served c w)"
  by (cases "faults w") (auto simp: served_def reliable_def)

lemma objects_served [simp]: "objects (served c w) = objects w"
  by (simp add: served_def)

lemma calls_served [simp]: "calls (served c w) = calls w @ [c]"
  by (simp add: served_def)

lemma reliable_objects_update [simp]: "reliable (w\<lparr>objects := os\<rparr>) = reliable w"
  by (simp add: reliable_def)

lemma save_held:
  "reliable w \<Longrightarrow> map_of (objects w) n = Some c0 \<Longrightarrow>
     file_save_new n c w = (Inl (httpError 412), served (Save n) w)"
  by (simp add: file_save_new_def nextFault_reliable)

lemma save_free:
  "reliable w \<Longrightarrow> map_of (objects w) n = None \<Longrightarrow>
     file_save_new n c w = (Inr (), (served (Save n) w)\<lparr>objects := objects w @ [(n, c)]\<rparr>)"
  by (simp add: file_save_new_def nextFault_reliable)

lemma download_present:
  "reliable w \<Longrightarrow> map_of (objects w) n = Some c \<Longrightarrow>
     file_download n w = (Inr c, served (Download n) w)"
  by (simp add: file_download_def nextFault_reliable)

lemma delete_present:
  "reliable w \<Longrightarrow> map_of (objects w) n = Some c \<Longrightarrow>
     file_delete n w =
       (Inr (), (served (Delete n) w)\<lparr>objects := filter (\<lambda>(k, v). k \<noteq> n) (objects w)\<rparr>)"
  by (simp add: file_delete_def nextFault_reliable)

lemma map_of_filter_out: "map_of (filter (\<lambda>(k, v). k \<noteq> n) xs) n = None"
  by (induction xs) auto

lemma map_of_filter_keep:
  "(\<And>v. P (n, v)) \<Longrightarrow> map_of (filter P xs) n = map_of xs n"
  by (induction xs) auto

lemma code_412 [simp]: "err_code (httpError 412) = Some 412"
  by (simp add: httpError_def)

lemma interfere_simps [simp]:
  "faults (interfere others w) = faults w"
  "calls (interfere others w) = calls w"
  "reliable (interfere others w) = reliable w"
  by (simp_all add: interfere_def reliable_def)

lemma applyWrite_other: "target wr \<noteq> n \<Longrightarrow> map_of (applyWrite os wr) n = map_of os n"
  by (cases wr) (auto simp: map_of_filter_keep map_add_def split: option.splits)

lemma foldl_applyWrite_other:
  "\<forall>wr \<in> set ws. target wr \<noteq> n \<Longrightarrow> map_of (foldl applyWrite os ws) n = map_of os n"
  by (induction ws arbitrary: os) (simp_all add: applyWrite_other)

lemma interfere_other:
  "\<forall>k. \<forall>wr \<in> set (others k). target wr \<noteq> n \<Longrightarrow>
     map_of (objects (interfere others w)) n = map_of (objects w) n"
  by (simp add: interfere_def foldl_applyWrite_other)

text \<open>
  For a record as \<^verbatim>\<open>acquireLock\<close> writes it, with whole milliseconds below \<open>2^53\<close>, the test
  of line 401 is the comparison of the age with the TTL: the subtraction is exact.
\<close>

lemma expired_plain:
  assumes "lockTime held = Fin (of_int t)" "ttl held = Fin (of_int l)" "\<bar>now - t\<bar> < 2 ^ 53"
  shows "expired now held = (l < now - t)"
proof -
  have "fl (of_int (now - t)) = Fin (of_int (now - t))" using assms(3) by (rule fl_of_int)
  then have "jsub (Fin (of_int now)) (Fin (of_int t)) = Fin (of_int (now - t))"
    by (simp add: jsub_def jneg_def jadd_def)
  then have "expired now held = (real_of_int l < of_int (now - t))"
    by (simp only: expired_def assms(1,2) jgt_def prod.case jsnum.case)
  then show ?thesis by (simp only: of_int_less_iff)
qed

text \<open>
  C2 (as amended). Take a store whose calls do not fail for reasons of their own, and
  other instances that write anything but the lock object while the call runs. An
  \<^verbatim>\<open>acquireLock\<close> that finds a lock record for which the test of line 401 holds (its age
  exceeds its TTL) deletes it and calls itself once: conditional create (412), download,
  delete, conditional create; it returns \<^verbatim>\<open>true\<close> and the lock object holds the caller's
  record. If the test fails it returns \<^verbatim>\<open>false\<close> without throwing after the create and the
  download, the lock object is unchanged, and \<^verbatim>\<open>initialize\<close> goes on without the lock. For
  timestamps in whole milliseconds the test is \<open>now - acquiredAtMs > ttlMs\<close>.
\<close>

theorem acquireLock_breaks_stale:
  assumes "reliable w"
    and "\<forall>n. \<forall>wr \<in> set (others n). target wr \<noteq> lockFile p"
    and "map_of (objects w) (lockFile p) = Some (LockJson held)"
  shows "(expired (clock (length (calls w) + 2)) held \<longrightarrow>
           (\<exists>w'. acquireLock (Suc (Suc depth)) p me clock others w = Some (Inr True, w')
              \<and> map_of (objects w') (lockFile p)
                    = Some (LockJson \<lparr>instanceId = JStr me,
                                       lockTime = Fin (of_int (clock (length (calls w) + 3))),
                                       ttl = Fin (of_int CONFIG_lockTtlMs)\<rparr>)
              \<and> calls w' = calls w @ [Save (lockFile p), Download (lockFile p),
                                       Delete (lockFile p), Save (lockFile p)]))
       \<and> (\<not> expired (clock (length (calls w) + 2)) held \<longrightarrow>
           (\<exists>w'. acquireLock (Suc depth) p me clock others w = Some (Inr False, w')
              \<and> map_of (objects w') (lockFile p) = Some (LockJson held)
              \<and> calls w' = calls w @ [Save (lockFile p), Download (lockFile p)])
           \<and> initialize_lock (Inr False) = ProceedsWithoutLock)
       \<and> (\<forall>t l now. lockTime held = Fin (of_int t) \<and> ttl held = Fin (of_int l) \<and> \<bar>now - t\<bar> < 2 ^ 53
             \<longrightarrow> expired now held = (l < now - t))"
proof (intro conjI impI allI)
  let ?l = "lockFile p"
  let ?i0 = "interfere others w"
  let ?w1 = "served (Save ?l) ?i0"
  let ?i1 = "interfere others ?w1"
  let ?w2 = "served (Download ?l) ?i1"
  have keep: "map_of (objects (interfere others v)) ?l = map_of (objects v) ?l" for v
    using assms(2) by (rule interfere_other)
  have at0: "map_of (objects ?i0) ?l = Some (LockJson held)"
    using assms(3) by (simp add: keep)
  have s1: "file_save_new ?l c ?i0 = (Inl (httpError 412), ?w1)" for c
    using assms(1) at0 by (intro save_held) simp_all
  have at1: "map_of (objects ?i1) ?l = Some (LockJson held)"
    using at0 by (simp add: keep)
  have d2: "file_download ?l ?i1 = (Inr (LockJson held), ?w2)"
    using assms(1) at1 by (intro download_present) simp_all
  {
    assume stale: "expired (clock (length (calls w) + 2)) held"
    let ?i2 = "interfere others ?w2"
    let ?w3 = "(served (Delete ?l) ?i2)\<lparr>objects := filter (\<lambda>(k, v). k \<noteq> ?l) (objects ?i2)\<rparr>"
    let ?i3 = "interfere others ?w3"
    let ?mine = "LockJson \<lparr>instanceId = JStr me, lockTime = Fin (of_int (clock (length (calls w) + 3))),
                            ttl = Fin (of_int CONFIG_lockTtlMs)\<rparr>"
    let ?w4 = "(served (Save ?l) ?i3)\<lparr>objects := objects ?i3 @ [(?l, ?mine)]\<rparr>"
    have at2: "map_of (objects ?i2) ?l = Some (LockJson held)"
      using at1 by (simp add: keep)
    have r3: "releaseLock p ?i2 = ?w3"
      using assms(1) at2 delete_present [of ?i2 ?l "LockJson held"] by (simp add: releaseLock_def)
    have at3: "map_of (objects ?i3) ?l = None"
      by (simp add: keep map_of_filter_out)
    have s4: "file_save_new ?l ?mine ?i3 = (Inr (), ?w4)"
      using assms(1) at3 by (simp add: file_save_new_def nextFault_reliable)
    have inner: "acquireLock (Suc depth) p me clock others ?w3 = Some (Inr True, ?w4)"
      using s4 by (simp add: Let_def eval_nat_numeral)
    have "acquireLock (Suc (Suc depth)) p me clock others w = Some (Inr True, ?w4)"
      using s1 d2 r3 inner stale
      by (simp del: acquireLock.simps(2) add: acquireLock.simps(2) [of "Suc depth"] Let_def
          eval_nat_numeral)
    moreover have "map_of (objects ?w4) ?l = Some ?mine"
      using at3 by (simp add: map_add_def)
    ultimately show "\<exists>w'. acquireLock (Suc (Suc depth)) p me clock others w = Some (Inr True, w')
              \<and> map_of (objects w') (lockFile p)
                    = Some (LockJson \<lparr>instanceId = JStr me,
                                       lockTime = Fin (of_int (clock (length (calls w) + 3))),
                                       ttl = Fin (of_int CONFIG_lockTtlMs)\<rparr>)
              \<and> calls w' = calls w @ [Save (lockFile p), Download (lockFile p),
                                       Delete (lockFile p), Save (lockFile p)]"
      by simp
  }
  {
    assume fresh: "\<not> expired (clock (length (calls w) + 2)) held"
    have "acquireLock (Suc depth) p me clock others w = Some (Inr False, ?w2)"
      using s1 d2 fresh by (simp add: Let_def eval_nat_numeral)
    then show "\<exists>w'. acquireLock (Suc depth) p me clock others w = Some (Inr False, w')
              \<and> map_of (objects w') (lockFile p) = Some (LockJson held)
              \<and> calls w' = calls w @ [Save (lockFile p), Download (lockFile p)]"
      using at1 by simp
  }
  show "initialize_lock (Inr False) = ProceedsWithoutLock"
    by (simp add: initialize_lock_def)
  show "expired now held = (l < now - t)"
    if "lockTime held = Fin (of_int t) \<and> ttl held = Fin (of_int l) \<and> \<bar>now - t\<bar> < 2 ^ 53" for t l now
    using that expired_plain [of held t l now] by blast
qed

theorem acquireLock_breaks_stale_witness:
  "reliable store0
   \<and> (\<forall>n. list_all (\<lambda>wr. target wr \<noteq> lockFile prefix0) (uploader n))
   \<and> map_of (objects store0) (lockFile prefix0) = Some (LockJson oldLock)
   \<and> expired 1000000 oldLock
   \<and> (\<exists>w'. acquireLock (Suc (Suc 0)) prefix0 ''me'' (\<lambda>n. 1000000) uploader store0 = Some (Inr True, w')
          \<and> map_of (objects w') (lockFile prefix0)
               = Some (LockJson \<lparr>instanceId = JStr ''me'', lockTime = Fin 1000000, ttl = Fin 300000\<rparr>)
          \<and> calls w' = [Save (lockFile prefix0), Download (lockFile prefix0),
                         Delete (lockFile prefix0), Save (lockFile prefix0)])
   \<and> \<not> expired 1000 oldLock
   \<and> (\<exists>w'. acquireLock (Suc 0) prefix0 ''me'' (\<lambda>n. 1000) uploader store0 = Some (Inr False, w')
          \<and> map_of (objects w') (lockFile prefix0) = Some (LockJson oldLock))
   \<and> lockTime oldLock = Fin (of_int 0) \<and> ttl oldLock = Fin (of_int 300000)
   \<and> \<bar>1000000 - 0\<bar> < (2::int) ^ 53
   \<and> expired 1000000 oldLock = ((300000::int) < 1000000 - 0)"
proof -
  have h1: "reliable store0"
    by (simp add: reliable_def store0_def)
  have q: "target wr \<noteq> lockFile prefix0" if "wr \<in> set (uploader n)" for wr n
    using that by (simp add: uploader_def lockFile_def prefix0_def split: if_splits)
  then have h2: "\<forall>n. \<forall>wr \<in> set (uploader n). target wr \<noteq> lockFile prefix0"
    by blast
  have h3: "map_of (objects store0) (lockFile prefix0) = Some (LockJson oldLock)"
    by (simp add: store0_def lockFile_def prefix0_def)
  have f: "lockTime oldLock = Fin (of_int 0)" "ttl oldLock = Fin (of_int 300000)"
      "\<bar>1000000 - 0\<bar> < (2::int) ^ 53" "\<bar>1000 - 0\<bar> < (2::int) ^ 53"
    by (simp_all add: oldLock_def)
  have c0: "calls store0 = []"
    by (simp add: store0_def)
  have t: "CONFIG_lockTtlMs = 300000"
    by (simp add: CONFIG_lockTtlMs_def)
  note thm1 = acquireLock_breaks_stale [OF h1 h2 h3, of "\<lambda>n. 1000000" 0 "''me''"]
  note thm2 = acquireLock_breaks_stale [OF h1 h2 h3, of "\<lambda>n. 1000" 0 "''me''"]
  from thm1 f have e1: "expired 1000000 oldLock = ((300000::int) < 1000000 - 0)"
    by blast
  from thm2 f have e2: "expired 1000 oldLock = ((300000::int) < 1000 - 0)"
    by blast
  have old: "expired 1000000 oldLock" "\<not> expired 1000 oldLock"
    using e1 e2 by simp_all
  have a: "\<exists>w'. acquireLock (Suc (Suc 0)) prefix0 ''me'' (\<lambda>n. 1000000) uploader store0 = Some (Inr True, w')
          \<and> map_of (objects w') (lockFile prefix0)
               = Some (LockJson \<lparr>instanceId = JStr ''me'', lockTime = Fin 1000000, ttl = Fin 300000\<rparr>)
          \<and> calls w' = [Save (lockFile prefix0), Download (lockFile prefix0),
                         Delete (lockFile prefix0), Save (lockFile prefix0)]"
    using thm1 old(1) by (simp add: c0 t)
  have b: "\<exists>w'. acquireLock (Suc 0) prefix0 ''me'' (\<lambda>n. 1000) uploader store0 = Some (Inr False, w')
          \<and> map_of (objects w') (lockFile prefix0) = Some (LockJson oldLock)"
    using thm2 old(2) by (simp add: c0) blast
  have h2': "\<forall>n. list_all (\<lambda>wr. target wr \<noteq> lockFile prefix0) (uploader n)"
    using h2 by (simp add: list_all_iff)
  show ?thesis
    using h1 h2' h3 old a b f(1,2,3) e1 by blast
qed

text \<open>
  Two runs on the concrete store, whose record is stale. In the first the delete that
  should break the record fails with a 403, which \<^verbatim>\<open>releaseLock\<close> swallows: the record is
  still there, and \<^verbatim>\<open>acquireLock\<close> goes round a second time before it succeeds, with three
  conditional creates, not two. In the second no call fails for reasons of its own, but
  another instance creates its lock between the delete and the second create: the
  caller finds a record that is not expired and returns \<^verbatim>\<open>false\<close>.
\<close>

theorem acquireLock_retry_counterexample:
  "(\<exists>w'. acquireLock (Suc (Suc (Suc 0))) prefix0 ''me'' (\<lambda>n. 1000000) nobody
            (store0\<lparr>faults := [None, None, Some (httpError 403)]\<rparr>) = Some (Inr True, w')
       \<and> calls w' =
            [Save ''sessions/whatsapp-bot/lock.json'', Download ''sessions/whatsapp-bot/lock.json'',
             Delete ''sessions/whatsapp-bot/lock.json'',
             Save ''sessions/whatsapp-bot/lock.json'', Download ''sessions/whatsapp-bot/lock.json'',
             Delete ''sessions/whatsapp-bot/lock.json'',
             Save ''sessions/whatsapp-bot/lock.json''])
   \<and> expired 1000000 oldLock
   \<and> (\<exists>w'. acquireLock (Suc (Suc 0)) prefix0 ''me'' (\<lambda>n. 1000000) rival store0 = Some (Inr False, w')
       \<and> faults w' = []
       \<and> map_of (objects w') ''sessions/whatsapp-bot/lock.json'' = Some (LockJson freshLock)
       \<and> calls w' =
            [Save ''sessions/whatsapp-bot/lock.json'', Download ''sessions/whatsapp-bot/lock.json'',
             Delete ''sessions/whatsapp-bot/lock.json'',
             Save ''sessions/whatsapp-bot/lock.json'', Download ''sessions/whatsapp-bot/lock.json''])"
proof -
  have e: "expired 1000000 oldLock" "\<not> expired 1000000 freshLock"
    using expired_plain [of oldLock 0 300000 1000000] expired_plain [of freshLock 999000 300000 1000000]
    by (simp_all add: oldLock_def freshLock_def)
  have e': "expired 1000000 \<lparr>instanceId = JStr ''old'', lockTime = Fin 0, ttl = Fin 300000\<rparr>"
      "\<not> expired 1000000 \<lparr>instanceId = JStr ''other'', lockTime = Fin 999000, ttl = Fin 300000\<rparr>"
    using e by (simp_all add: oldLock_def freshLock_def)
  have one: "\<exists>w'. acquireLock (Suc (Suc (Suc 0))) prefix0 ''me'' (\<lambda>n. 1000000) nobody
            (store0\<lparr>faults := [None, None, Some (httpError 403)]\<rparr>) = Some (Inr True, w')
       \<and> calls w' =
            [Save ''sessions/whatsapp-bot/lock.json'', Download ''sessions/whatsapp-bot/lock.json'',
             Delete ''sessions/whatsapp-bot/lock.json'',
             Save ''sessions/whatsapp-bot/lock.json'', Download ''sessions/whatsapp-bot/lock.json'',
             Delete ''sessions/whatsapp-bot/lock.json'',
             Save ''sessions/whatsapp-bot/lock.json'']"
    using e'
    by (simp add: store0_def prefix0_def oldLock_def lockFile_def releaseLock_def file_save_new_def
        file_download_def file_delete_def nextFault_def httpError_def CONFIG_lockTtlMs_def
        interfere_def nobody_def Let_def)
  have two: "\<exists>w'. acquireLock (Suc (Suc 0)) prefix0 ''me'' (\<lambda>n. 1000000) rival store0 = Some (Inr False, w')
       \<and> faults w' = []
       \<and> map_of (objects w') ''sessions/whatsapp-bot/lock.json'' = Some (LockJson freshLock)
       \<and> calls w' =
            [Save ''sessions/whatsapp-bot/lock.json'', Download ''sessions/whatsapp-bot/lock.json'',
             Delete ''sessions/whatsapp-bot/lock.json'',
             Save ''sessions/whatsapp-bot/lock.json'', Download ''sessions/whatsapp-bot/lock.json'']"
    using e'
    by (simp add: store0_def prefix0_def oldLock_def freshLock_def lockFile_def releaseLock_def
        file_save_new_def file_download_def file_delete_def nextFault_def httpError_def
        CONFIG_lockTtlMs_def interfere_def rival_def Let_def)
  show ?thesis
    using one e(1) two by blast
qed

text \<open>
  A lock object whose content is the text \<^verbatim>\<open>{}\<close> has no \<^verbatim>\<open>timestamp\<close> and no \<^verbatim>\<open>ttl\<close>: the
  test compares \<^verbatim>\<open>NaN\<close> and fails, and \<^verbatim>\<open>acquireLock\<close> returns \<^verbatim>\<open>false\<close> with the object
  left as it is.
\<close>

lemma acquireLock_empty_object:
  "acquireLock (Suc 0) prefix0 ''me'' (\<lambda>n. 1000000) nobody
     \<lparr>objects = [(''sessions/whatsapp-bot/lock.json'', emptyObject)], faults = [], calls = []\<rparr>
   = Some (Inr False,
       \<lparr>objects = [(''sessions/whatsapp-bot/lock.json'', emptyObject)], faults = [],
        calls = [Save ''sessions/whatsapp-bot/lock.json'', Download ''sessions/whatsapp-bot/lock.json'']\<rparr>)"
  by (simp add: prefix0_def lockFile_def file_save_new_def file_download_def nextFault_def
      httpError_def interfere_def nobody_def emptyObject_def expired_def jsub_def jneg_def jadd_def
      jgt_def Let_def)
subsection \<open>Session store: clear\<close>

lemma deleteEach_reliable:
  assumes "reliable w" and "distinct (map fst (objects w))"
    and "set files \<subseteq> fst ` set (objects w)" and "distinct files"
  shows "\<exists>w'. deleteEach files w = (Inr (), w') \<and> reliable w'
           \<and> objects w' = filter (\<lambda>(k, v). k \<notin> set files) (objects w)"
  using assms
proof (induction files arbitrary: w)
  case Nil
  then show ?case by simp
next
  case (Cons f files)
  from Cons.prems(3) obtain c where c: "map_of (objects w) f = Some c"
    by (metis list.set_intros(1) map_of_eq_None_iff not_Some_eq subsetD)
  let ?w1 = "(served (Delete f) w)\<lparr>objects := filter (\<lambda>(k, v). k \<noteq> f) (objects w)\<rparr>"
  have d: "file_delete f w = (Inr (), ?w1)"
    using Cons.prems(1) c by (rule delete_present)
  have p1: "reliable ?w1" using Cons.prems(1) by simp
  have p2: "distinct (map fst (objects ?w1))"
    using Cons.prems(2) by (simp add: distinct_map_filter)
  have p3: "set files \<subseteq> fst ` set (objects ?w1)"
    using Cons.prems(3,4) by force
  have p4: "distinct files" using Cons.prems(4) by simp
  from Cons.IH [OF p1 p2 p3 p4] obtain w' where w':
    "deleteEach files ?w1 = (Inr (), w')" "reliable w'"
    "objects w' = filter (\<lambda>(k, v). k \<notin> set files) (objects ?w1)"
    by blast
  have "filter (\<lambda>(k, v). k \<notin> set files) (filter (\<lambda>(k, v). k \<noteq> f) (objects w))
          = filter (\<lambda>(k, v). k \<notin> set (f # files)) (objects w)"
    by (auto intro: filter_cong)
  with w' d show ?case by simp
qed

lemma getFiles_reliable:
  "reliable w \<Longrightarrow> bucket_getFiles p w =
     (Inr (filter (startsWith p) (map fst (objects w))), served (GetFiles p) w)"
  by (simp add: bucket_getFiles_def nextFault_reliable)

lemma withRetry_first_try:
  "operation w = (Inr v, w') \<Longrightarrow> 1 \<le> M \<Longrightarrow> withRetry rand operation name M w = (Inr (Some v), w', [])"
  by (simp add: withRetry_def withRetry_loop.simps)

lemma withRetry_index_first_try:
  "operation w = (Inr v, w') \<Longrightarrow> 1 \<le> M \<Longrightarrow> withRetry_index operation name M w = (Inr (Some v), w', [])"
  by (simp add: withRetry_index_def withRetry_loop_index.simps)

lemma clear_operation_reliable:
  assumes "reliable w" and "distinct (map fst (objects w))"
  shows "\<exists>w'. clearSession_operation p w = (Inr (), w') \<and> reliable w'
           \<and> objects w' = filter (\<lambda>(k, v). \<not> (startsWith p k \<and> \<not> endsWith ''lock.json'' k)) (objects w)"
proof -
  let ?w1 = "served (GetFiles p) w"
  let ?fs = "filter (\<lambda>f. \<not> endsWith ''lock.json'' f) (filter (startsWith p) (map fst (objects w)))"
  have p1: "reliable ?w1" using assms(1) by simp
  have p2: "distinct (map fst (objects ?w1))" using assms(2) by simp
  have p3: "set ?fs \<subseteq> fst ` set (objects ?w1)" by auto
  have p4: "distinct ?fs" using assms(2) by simp
  from deleteEach_reliable [OF p1 p2 p3 p4] obtain w' where w':
    "deleteEach ?fs ?w1 = (Inr (), w')" "reliable w'"
    "objects w' = filter (\<lambda>(k, v). k \<notin> set ?fs) (objects ?w1)"
    by blast
  have "filter (\<lambda>(k, v). k \<notin> set ?fs) (objects w)
          = filter (\<lambda>(k, v). \<not> (startsWith p k \<and> \<not> endsWith ''lock.json'' k)) (objects w)"
    by (rule filter_cong) (auto simp: rev_image_eqI)
  with w' show ?thesis
    using assms(1) by (simp add: clearSession_operation_def getFiles_reliable)
qed

lemma clear_operation_index_reliable:
  assumes "reliable w" and "distinct (map fst (objects w))"
  shows "\<exists>w'. clearSession_operation_index p w = (Inr (), w') \<and> reliable w'
           \<and> objects w' = filter (\<lambda>(k, v). \<not> startsWith p k) (objects w)"
proof -
  let ?w1 = "served (GetFiles p) w"
  let ?fs = "filter (startsWith p) (map fst (objects w))"
  have p1: "reliable ?w1" using assms(1) by simp
  have p2: "distinct (map fst (objects ?w1))" using assms(2) by simp
  have p3: "set ?fs \<subseteq> fst ` set (objects ?w1)" by auto
  have p4: "distinct ?fs" using assms(2) by simp
  from deleteEach_reliable [OF p1 p2 p3 p4] obtain w' where w':
    "deleteEach ?fs ?w1 = (Inr (), w')" "reliable w'"
    "objects w' = filter (\<lambda>(k, v). k \<notin> set ?fs) (objects ?w1)"
    by blast
  have "filter (\<lambda>(k, v). k \<notin> set ?fs) (objects w)
          = filter (\<lambda>(k, v). \<not> startsWith p k) (objects w)"
    by (rule filter_cong) (auto simp: rev_image_eqI)
  with w' show ?thesis
    using assms(1) by (simp add: clearSession_operation_index_def getFiles_reliable)
qed

lemma endsWith_lockFile: "endsWith ''lock.json'' (lockFile p)"
  by (simp add: endsWith_def lockFile_def)

lemma clear_on_reliable:
  assumes "reliable w" and "distinct (map fst (objects w))"
  shows "(\<exists>w'. clearSessionFromBucket rand p w = (Inr (Some ()), w', [])
            \<and> objects w' = filter (\<lambda>(k, v). \<not> startsWith p k \<or> endsWith ''lock.json'' k) (objects w)
            \<and> map_of (objects w') (lockFile p) = map_of (objects w) (lockFile p))
       \<and> (\<exists>w'. clearSessionFromBucket_index True p w = (Inr (Some ()), w', [])
            \<and> objects w' = filter (\<lambda>(k, v). \<not> startsWith p k) (objects w))"
proof -
  obtain w1 where w1: "clearSession_operation p w = (Inr (), w1)"
    "objects w1 = filter (\<lambda>(k, v). \<not> (startsWith p k \<and> \<not> endsWith ''lock.json'' k)) (objects w)"
    using clear_operation_reliable [OF assms] by blast
  have same: "(\<lambda>(k, v). \<not> (startsWith p k \<and> \<not> endsWith ''lock.json'' k))
                = (\<lambda>(k, v :: content). \<not> startsWith p k \<or> endsWith ''lock.json'' k)"
    by auto
  have run: "clearSessionFromBucket rand p w = (Inr (Some ()), w1, [])"
    using withRetry_first_try [of "clearSession_operation p" w "()" w1 3 rand] w1(1)
    by (simp add: clearSessionFromBucket_def CONFIG_maxRetries_def)
  have kept: "map_of (objects w1) (lockFile p) = map_of (objects w) (lockFile p)"
    unfolding w1(2) by (rule map_of_filter_keep) (simp add: endsWith_lockFile)
  obtain w2 where w2: "clearSession_operation_index p w = (Inr (), w2)"
    "objects w2 = filter (\<lambda>(k, v). \<not> startsWith p k) (objects w)"
    using clear_operation_index_reliable [OF assms] by blast
  have run_i: "clearSessionFromBucket_index True p w = (Inr (Some ()), w2, [])"
    using withRetry_index_first_try [of "clearSession_operation_index p" w "()" w2 3] w2(1)
    by (simp add: clearSessionFromBucket_index_def CONFIG_maxRetries_def)
  show ?thesis
    using run w1(2) kept run_i w2(2) unfolding same by blast
qed

lemma map_of_filter_key:
  "map_of (filter (\<lambda>(k, v). Q k) xs) n = (if Q n then map_of xs n else None)"
  by (induction xs) auto

text \<open>
  C5 (as amended). On a bucket whose names are distinct and whose calls do not fail for
  reasons of their own, \<^verbatim>\<open>clearSessionFromBucket\<close> of the production server succeeds at
  the first attempt, deletes every object under the session prefix whose name does not
  end with \<^verbatim>\<open>lock.json\<close>, leaves the lock object \<^verbatim>\<open><prefix>lock.json\<close> as it was and touches
  nothing outside the prefix. \<^verbatim>\<open>clearSessionFromBucket\<close> of \<^verbatim>\<open>src/index.js\<close> deletes every
  object under the prefix and touches nothing outside it.
\<close>

theorem clear_keeps_lock:
  assumes "reliable w" and "distinct (map fst (objects w))"
  shows "(\<exists>w'. clearSessionFromBucket rand p w = (Inr (Some ()), w', [])
            \<and> (\<forall>n. startsWith p n \<and> \<not> endsWith ''lock.json'' n \<longrightarrow> map_of (objects w') n = None)
            \<and> map_of (objects w') (lockFile p) = map_of (objects w) (lockFile p)
            \<and> (\<forall>n. \<not> startsWith p n \<longrightarrow> map_of (objects w') n = map_of (objects w) n))
       \<and> (\<exists>w'. clearSessionFromBucket_index True p w = (Inr (Some ()), w', [])
            \<and> (\<forall>n. startsWith p n \<longrightarrow> map_of (objects w') n = None)
            \<and> (\<forall>n. \<not> startsWith p n \<longrightarrow> map_of (objects w') n = map_of (objects w) n))"
proof -
  from clear_on_reliable [OF assms, of rand p] obtain w1 w2 where
    w1: "clearSessionFromBucket rand p w = (Inr (Some ()), w1, [])"
        "objects w1 = filter (\<lambda>(k, v). \<not> startsWith p k \<or> endsWith ''lock.json'' k) (objects w)"
        "map_of (objects w1) (lockFile p) = map_of (objects w) (lockFile p)"
    and w2: "clearSessionFromBucket_index True p w = (Inr (Some ()), w2, [])"
        "objects w2 = filter (\<lambda>(k, v). \<not> startsWith p k) (objects w)"
    by blast
  have a: "\<forall>n. startsWith p n \<and> \<not> endsWith ''lock.json'' n \<longrightarrow> map_of (objects w1) n = None"
    unfolding w1(2) by (simp add: map_of_filter_key)
  have b: "\<forall>n. \<not> startsWith p n \<longrightarrow> map_of (objects w1) n = map_of (objects w) n"
    unfolding w1(2) by (simp add: map_of_filter_key)
  have c: "\<forall>n. startsWith p n \<longrightarrow> map_of (objects w2) n = None"
    unfolding w2(2) by (simp add: map_of_filter_key)
  have d: "\<forall>n. \<not> startsWith p n \<longrightarrow> map_of (objects w2) n = map_of (objects w) n"
    unfolding w2(2) by (simp add: map_of_filter_key)
  show ?thesis
    using w1(1,3) a b w2(1) c d by blast
qed

theorem clear_keeps_lock_witness:
  "reliable store0 \<and> distinct (map fst (objects store0))
   \<and> startsWith prefix0 ''sessions/whatsapp-bot/creds.json''
   \<and> \<not> endsWith ''lock.json'' ''sessions/whatsapp-bot/creds.json''
   \<and> \<not> startsWith prefix0 ''elsewhere/creds.json''
   \<and> (\<exists>w'. clearSessionFromBucket (\<lambda>k. Fin 0) prefix0 store0 = (Inr (Some ()), w', [])
          \<and> map_of (objects w') ''sessions/whatsapp-bot/creds.json'' = None
          \<and> map_of (objects w') (lockFile prefix0) = Some (LockJson oldLock)
          \<and> map_of (objects w') ''elsewhere/creds.json'' = map_of (objects store0) ''elsewhere/creds.json'')
   \<and> (\<exists>w'. clearSessionFromBucket_index True prefix0 store0 = (Inr (Some ()), w', [])
          \<and> map_of (objects w') ''sessions/whatsapp-bot/creds.json'' = None
          \<and> map_of (objects w') ''elsewhere/creds.json'' = map_of (objects store0) ''elsewhere/creds.json'')"
proof -
  have h1: "reliable store0"
    by (simp add: reliable_def store0_def)
  have h2: "distinct (map fst (objects store0))"
    by (simp add: store0_def)
  have l: "map_of (objects store0) (lockFile prefix0) = Some (LockJson oldLock)"
    by (simp add: store0_def lockFile_def prefix0_def)
  have n: "startsWith prefix0 ''sessions/whatsapp-bot/creds.json''"
      "\<not> endsWith ''lock.json'' ''sessions/whatsapp-bot/creds.json''"
      "\<not> startsWith prefix0 ''elsewhere/creds.json''"
    by (simp_all add: prefix0_def startsWith_def endsWith_def)
  show ?thesis
    using clear_keeps_lock [OF h1 h2, of "\<lambda>k. Fin 0" prefix0] h1 h2 l n by auto
qed

text \<open>
  A session file named \<^verbatim>\<open>padlock.json\<close> lies under the prefix and is not the lock object,
  yet the production server's clear leaves it in the bucket; the clear of
  \<^verbatim>\<open>src/index.js\<close> deletes the lock object with the rest.
\<close>

theorem clear_counterexample:
  "objects (fst (snd (clearSessionFromBucket (\<lambda>k. Fin 0) prefix0 store0)))
     = [(''sessions/whatsapp-bot/lock.json'', LockJson oldLock),
        (''sessions/whatsapp-bot/padlock.json'', Bytes ''creds'')]
   \<and> objects (fst (snd (clearSessionFromBucket_index True prefix0 store0))) = []"
  by (simp add: clearSessionFromBucket_def clearSessionFromBucket_index_def withRetry_def
      withRetry_index_def withRetry_loop.simps withRetry_loop_index.simps CONFIG_maxRetries_def
      clearSession_operation_def clearSession_operation_index_def bucket_getFiles_def
      file_delete_def nextFault_def store0_def prefix0_def startsWith_def endsWith_def)

subsection \<open>Connection manager\<close>

lemma pairingChallenge_frame:
  assumes "pairingChallenge env u m = Some m1"
  shows "isShuttingDown m1 = isShuttingDown m" and "connectCalls m1 = connectCalls m"
    and "reconnectTimers m1 = reconnectTimers m" and "sessionDir m1 = sessionDir m"
    and "bucket m1 = bucket m"
  using assms
  by (auto simp: pairingChallenge_def Let_def split: option.splits if_splits sum.splits)

lemma scheduleReconnect_frame [simp]:
  "isShuttingDown (scheduleReconnect b m) = isShuttingDown m"
  "connectCalls (scheduleReconnect b m) = connectCalls m"
  "sessionDir (scheduleReconnect b m) = sessionDir m"
  "bucket (scheduleReconnect b m) = bucket m"
  by (simp_all add: scheduleReconnect_def)

lemma scheduleReconnect_timers:
  "reconnectTimers (scheduleReconnect b m) =
     (if b \<and> \<not> isShuttingDown m then reconnectTimers m @ [5000] else reconnectTimers m)"
  by (simp add: scheduleReconnect_def)

















text \<open>
  C7 (as amended). An update that carries a pairing challenge (a non-empty \<^verbatim>\<open>qr\<close>) less
  than 5000 ms after the last processed one leaves the whole state as it was, the exposed
  artifact and the debounce timer included. A pairing-challenge event (no \<^verbatim>\<open>connection\<close>
  in the update) that comes later sets the debounce timer to the current time and, when
  the rendering succeeds, exposes the newly rendered artifact; when the rendering throws,
  the artifact exposed before stays.
\<close>

theorem challenge_debounce:
  assumes "qr u = Some code" and "code \<noteq> []"
  shows "(dateNow env - lastQRTime m < 5000 \<longrightarrow> connection_update clear env u m = (None, m))
       \<and> (\<not> dateNow env - lastQRTime m < 5000 \<and> connection u = None \<longrightarrow>
            connection_update clear env u m =
              (None, m\<lparr>lastQRTime := dateNow env,
                       qrCodeBase64 := (case toDataURL env of
                                          Inr dataUrl \<Rightarrow> Some dataUrl
                                        | Inl error \<Rightarrow> qrCodeBase64 m)\<rparr>))"
  using assms
  by (auto simp: connection_update_def pairingChallenge_def CONFIG_qrDebounceMs_def Let_def
      split: sum.splits)

theorem challenge_debounce_witness:
  "qr (challengeEvent ''2@abc'') = Some ''2@abc'' \<and> ''2@abc'' \<noteq> []
   \<and> dateNow calm - lastQRTime (paired\<lparr>lastQRTime := 999000\<rparr>) < 5000
   \<and> connection_update (clearSessionFromBucket (\<lambda>k. Fin 0) prefix0) calm (challengeEvent ''2@abc'')
         (paired\<lparr>lastQRTime := 999000\<rparr>)
       = (None, paired\<lparr>lastQRTime := 999000\<rparr>)
   \<and> \<not> dateNow calm - lastQRTime paired < 5000 \<and> connection (challengeEvent ''2@abc'') = None
   \<and> connection_update (clearSessionFromBucket (\<lambda>k. Fin 0) prefix0) calm (challengeEvent ''2@abc'') paired
       = (None, paired\<lparr>lastQRTime := 1000000, qrCodeBase64 := Some ''data:image/png;base64,NEW''\<rparr>)"
proof -
  let ?clear = "clearSessionFromBucket (\<lambda>k. Fin 0) prefix0"
  have q: "qr (challengeEvent ''2@abc'') = Some ''2@abc''" "''2@abc'' \<noteq> []"
      "connection (challengeEvent ''2@abc'') = None"
    by (simp_all add: challengeEvent_def)
  have t: "dateNow calm - lastQRTime (paired\<lparr>lastQRTime := 999000\<rparr>) < 5000"
      "\<not> dateNow calm - lastQRTime paired < 5000"
      "dateNow calm = 1000000" "toDataURL calm = Inr ''data:image/png;base64,NEW''"
    by (simp_all add: calm_def paired_def)
  show ?thesis
    using challenge_debounce [OF q(1,2), of calm "paired\<lparr>lastQRTime := 999000\<rparr>" ?clear]
      challenge_debounce [OF q(1,2), of calm paired ?clear] q t
    by simp
qed

text \<open>
  The challenge comes after the window and \<^verbatim>\<open>QRCode.toDataURL\<close> throws: the \<^verbatim>\<open>catch\<close>
  logs the error, the debounce timer is reset, and the artifact exposed is still the old
  one.
\<close>

theorem challenge_render_counterexample:
  "\<not> dateNow (calm\<lparr>toDataURL := Inl econnreset\<rparr>) - lastQRTime paired < CONFIG_qrDebounceMs
   \<and> connection_update (clearSessionFromBucket (\<lambda>k. Fin 0) prefix0) (calm\<lparr>toDataURL := Inl econnreset\<rparr>)
         (challengeEvent ''2@abc'') paired
       = (None, paired\<lparr>lastQRTime := 1000000\<rparr>)
   \<and> qrCodeBase64 (paired\<lparr>lastQRTime := 1000000\<rparr>) = Some ''data:image/png;base64,OLD''"
  by (simp add: connection_update_def pairingChallenge_def CONFIG_qrDebounceMs_def Let_def
      calm_def paired_def challengeEvent_def)

lemma clearLocalSession_ok:
  "rmError env = None \<Longrightarrow> mkdirError env = None \<Longrightarrow> clearLocalSession env dir = Some []"
  by (simp add: clearLocalSession_def)

lemma update_not_logout_frame:
  assumes "lastDisconnect u \<noteq> Some (Boom DisconnectReason_loggedOut)"
  shows "sessionDir (snd (connection_update clear env u m)) = sessionDir m
       \<and> bucket (snd (connection_update clear env u m)) = bucket m"
proof (cases "pairingChallenge env u m")
  case None
  then show ?thesis by (simp add: connection_update_def)
next
  case (Some m1)
  note f = pairingChallenge_frame [OF Some]
  show ?thesis
    using f(4,5) assms by (simp add: connection_update_def Some Let_def
        split: option.splits connection_state.splits)
qed

lemma update_logout_no_timer:
  assumes "lastDisconnect u = Some (Boom DisconnectReason_loggedOut)"
  shows "reconnectTimers (snd (connection_update clear env u m)) = reconnectTimers m"
proof (cases "pairingChallenge env u m")
  case None
  then show ?thesis by (simp add: connection_update_def)
next
  case (Some m1)
  note f = pairingChallenge_frame [OF Some]
  show ?thesis
    using f(3) assms by (simp add: connection_update_def Some Let_def scheduleReconnect_timers
        split: option.splits connection_state.splits prod.splits sum.splits)
qed

lemma logout_close_with:
  assumes "connection u = Some Close" and "qr u = None"
    and "lastDisconnect u = Some (Boom DisconnectReason_loggedOut)"
    and "rmError env = None" and "mkdirError env = None"
    and "clear (bucket m) = (Inr done, b, effs)"
  shows "connection_update clear env u m =
           (None, m\<lparr>isConnected := False, qrCodeBase64 := None, sessionDir := Some [], bucket := b\<rparr>)"
  using assms
  by (simp add: connection_update_def pairingChallenge_def scheduleReconnect_def Let_def
      clearLocalSession_ok)

text \<open>
  C3 (as amended). Take a connection-close event (no pairing challenge in the update)
  whose error is a \<^verbatim>\<open>Boom\<close> with the status of the logout. If \<^verbatim>\<open>fs.rm\<close> and \<^verbatim>\<open>fs.mkdir\<close>
  succeed and the calls on the bucket do not fail, the handler leaves the local session
  directory empty and the bucket without the objects under the prefix (in the production
  server, those whose names do not end with \<^verbatim>\<open>lock.json\<close>), and sets no reconnect timer. Whatever the
  environment does, an update with the logout error sets no reconnect timer. A close
  event with any other reason, or with none, changes neither the local session directory
  nor the bucket.
\<close>

theorem logout_clears_session:
  "(connection u = Some Close \<and> qr u = None
      \<and> lastDisconnect u = Some (Boom DisconnectReason_loggedOut)
      \<and> rmError env = None \<and> mkdirError env = None
      \<and> reliable (bucket m) \<and> distinct (map fst (objects (bucket m))) \<longrightarrow>
      (\<exists>m'. connection_update (clearSessionFromBucket rand p) env u m = (None, m')
          \<and> sessionDir m' = Some []
          \<and> (\<forall>n. startsWith p n \<and> \<not> endsWith ''lock.json'' n \<longrightarrow>
                 map_of (objects (bucket m')) n = None)
          \<and> reconnectTimers m' = reconnectTimers m)
      \<and> (\<exists>m'. connection_update (clearSessionFromBucket_index True p) env u m = (None, m')
          \<and> sessionDir m' = Some []
          \<and> (\<forall>n. startsWith p n \<longrightarrow> map_of (objects (bucket m')) n = None)
          \<and> reconnectTimers m' = reconnectTimers m))
   \<and> (lastDisconnect u = Some (Boom DisconnectReason_loggedOut) \<longrightarrow>
        reconnectTimers (snd (connection_update clear env u m)) = reconnectTimers m)
   \<and> (connection u = Some Close \<and> lastDisconnect u \<noteq> Some (Boom DisconnectReason_loggedOut) \<longrightarrow>
        sessionDir (snd (connection_update clear env u m)) = sessionDir m
        \<and> bucket (snd (connection_update clear env u m)) = bucket m)"
proof (intro conjI impI)
  assume a: "connection u = Some Close \<and> qr u = None
      \<and> lastDisconnect u = Some (Boom DisconnectReason_loggedOut)
      \<and> rmError env = None \<and> mkdirError env = None
      \<and> reliable (bucket m) \<and> distinct (map fst (objects (bucket m)))"
  then have r: "reliable (bucket m)" and d: "distinct (map fst (objects (bucket m)))"
    by simp_all
  from clear_on_reliable [OF r d, of rand p]
  obtain w1 w2 where
    w1: "clearSessionFromBucket rand p (bucket m) = (Inr (Some ()), w1, [])"
        "objects w1 = filter (\<lambda>(k, v). \<not> startsWith p k \<or> endsWith ''lock.json'' k) (objects (bucket m))"
    and w2: "clearSessionFromBucket_index True p (bucket m) = (Inr (Some ()), w2, [])"
        "objects w2 = filter (\<lambda>(k, v). \<not> startsWith p k) (objects (bucket m))"
    by blast
  show "\<exists>m'. connection_update (clearSessionFromBucket rand p) env u m = (None, m')
          \<and> sessionDir m' = Some []
          \<and> (\<forall>n. startsWith p n \<and> \<not> endsWith ''lock.json'' n \<longrightarrow>
                 map_of (objects (bucket m')) n = None)
          \<and> reconnectTimers m' = reconnectTimers m"
    using logout_close_with [of u env "clearSessionFromBucket rand p" m "Some ()" w1 "[]"] a w1
    by (simp add: map_of_filter_key)
  show "\<exists>m'. connection_update (clearSessionFromBucket_index True p) env u m = (None, m')
          \<and> sessionDir m' = Some []
          \<and> (\<forall>n. startsWith p n \<longrightarrow> map_of (objects (bucket m')) n = None)
          \<and> reconnectTimers m' = reconnectTimers m"
    using logout_close_with [of u env "clearSessionFromBucket_index True p" m "Some ()" w2 "[]"] a w2
    by (simp add: map_of_filter_key)
next
  assume "lastDisconnect u = Some (Boom DisconnectReason_loggedOut)"
  then show "reconnectTimers (snd (connection_update clear env u m)) = reconnectTimers m"
    by (rule update_logout_no_timer)
next
  assume a: "connection u = Some Close \<and> lastDisconnect u \<noteq> Some (Boom DisconnectReason_loggedOut)"
  then show "sessionDir (snd (connection_update clear env u m)) = sessionDir m"
    and "bucket (snd (connection_update clear env u m)) = bucket m"
    using update_not_logout_frame [of u clear env m] by simp_all
qed

theorem logout_clears_session_witness:
  "connection (closeEvent (Some (Boom 401))) = Some Close \<and> qr (closeEvent (Some (Boom 401))) = None
   \<and> lastDisconnect (closeEvent (Some (Boom 401))) = Some (Boom DisconnectReason_loggedOut)
   \<and> rmError calm = None \<and> mkdirError calm = None
   \<and> reliable (bucket paired) \<and> distinct (map fst (objects (bucket paired)))
   \<and> (\<exists>m'. connection_update (clearSessionFromBucket (\<lambda>k. Fin 0) prefix0) calm
                (closeEvent (Some (Boom 401))) paired = (None, m')
          \<and> sessionDir m' = Some [] \<and> reconnectTimers m' = reconnectTimers paired)
   \<and> connection (closeEvent None) = Some Close
   \<and> lastDisconnect (closeEvent None) \<noteq> Some (Boom DisconnectReason_loggedOut)
   \<and> sessionDir (snd (connection_update (clearSessionFromBucket (\<lambda>k. Fin 0) prefix0) calm
                         (closeEvent None) paired)) = sessionDir paired
   \<and> bucket (snd (connection_update (clearSessionFromBucket (\<lambda>k. Fin 0) prefix0) calm
                      (closeEvent None) paired)) = bucket paired"
proof -
  let ?clear = "clearSessionFromBucket (\<lambda>k. Fin 0) prefix0"
  have u: "connection (closeEvent (Some (Boom 401))) = Some Close" "qr (closeEvent (Some (Boom 401))) = None"
      "lastDisconnect (closeEvent (Some (Boom 401))) = Some (Boom DisconnectReason_loggedOut)"
      "connection (closeEvent None) = Some Close"
      "lastDisconnect (closeEvent None) \<noteq> Some (Boom DisconnectReason_loggedOut)"
    by (simp_all add: closeEvent_def DisconnectReason_loggedOut_def)
  have e: "rmError calm = None" "mkdirError calm = None"
    by (simp_all add: calm_def)
  have b: "reliable (bucket paired)" "distinct (map fst (objects (bucket paired)))"
    by (simp_all add: paired_def store0_def reliable_def)
  have one: "\<exists>m'. connection_update ?clear calm (closeEvent (Some (Boom 401))) paired = (None, m')
          \<and> sessionDir m' = Some [] \<and> reconnectTimers m' = reconnectTimers paired"
    using logout_clears_session [of "closeEvent (Some (Boom 401))" calm paired "\<lambda>k. Fin 0" prefix0 ?clear]
      u e b by blast
  have two: "sessionDir (snd (connection_update ?clear calm (closeEvent None) paired)) = sessionDir paired
      \<and> bucket (snd (connection_update ?clear calm (closeEvent None) paired)) = bucket paired"
    using logout_clears_session [of "closeEvent None" calm paired "\<lambda>k. Fin 0" prefix0 ?clear] u by blast
  show ?thesis
    using u e b one two by blast
qed

text \<open>
  The close carries the logout and \<^verbatim>\<open>fs.rm\<close> throws: the \<^verbatim>\<open>catch\<close> logs the error and the
  handler goes on to the bucket; the local session directory still holds the
  credentials.
\<close>

theorem logout_local_counterexample:
  "connection (closeEvent (Some (Boom 401))) = Some Close
   \<and> lastDisconnect (closeEvent (Some (Boom 401))) = Some (Boom DisconnectReason_loggedOut)
   \<and> sessionDir (snd (connection_update (clearSessionFromBucket (\<lambda>k. Fin 0) prefix0)
                         (calm\<lparr>rmError := Some econnreset\<rparr>) (closeEvent (Some (Boom 401))) paired))
       = Some [(''creds.json'', Bytes ''creds'')]"
proof -
  have "sessionDir (snd (connection_update clear (calm\<lparr>rmError := Some econnreset\<rparr>)
                            (closeEvent (Some (Boom 401))) paired))
          = Some [(''creds.json'', Bytes ''creds'')]" for clear
    by (simp add: connection_update_def pairingChallenge_def clearLocalSession_def Let_def
        closeEvent_def calm_def paired_def DisconnectReason_loggedOut_def split: prod.splits sum.splits)
  then show ?thesis
    by (simp add: closeEvent_def DisconnectReason_loggedOut_def)
qed

subsection \<open>HTTP surface\<close>

text \<open>
  C8 (as amended). For a request whose body lets \<^verbatim>\<open>to\<close> and \<^verbatim>\<open>message\<close> be read: if either is
  missing or falsy (an empty string, 0, \<^verbatim>\<open>false\<close>, \<^verbatim>\<open>null\<close>) the response is 400, in both entry
  points; otherwise, if the bot is not connected, it is 503, in both. Otherwise the
  production server answers 503 when the queue holds its maximum (the message being a
  string) and, when there is room and \<^verbatim>\<open>to\<close> is a string, enqueues the message with three
  attempts and answers 200 with \<^verbatim>\<open>success: true\<close>, \<^verbatim>\<open>queued: true\<close> and the normalised
  recipient. \<^verbatim>\<open>src/index.js\<close> sends the message at once: 200 with \<^verbatim>\<open>success: true\<close>, the
  delivery identifier and the normalised recipient, with no \<^verbatim>\<open>queued\<close> field, or 500 when
  the send throws.
\<close>

theorem send_message_responses:
  assumes "property ''to'' reqBody = Inr to'" and "property ''message'' reqBody = Inr message'"
  shows "(\<not> truthy to' \<or> \<not> truthy message' \<longrightarrow>
            send_message isoTime now reqBody up sock mq =
              (failure 400 ''Missing required fields: to, message'', mq, False)
            \<and> send_message_index isoTime reqBody up sock engine =
                failure 400 ''Missing required fields: to, message'')
       \<and> (truthy to' \<and> truthy message' \<and> (\<not> up \<or> \<not> sock) \<longrightarrow>
            send_message isoTime now reqBody up sock mq =
              (failure 503 ''WhatsApp not connected. Please scan QR code first.'', mq, False)
            \<and> send_message_index isoTime reqBody up sock engine =
                failure 503 ''WhatsApp not connected. Please scan QR code first.'')
       \<and> (truthy to' \<and> message' = JStr text \<and> text \<noteq> [] \<and> up \<and> sock
            \<and> CONFIG_messageQueueMaxSize \<le> length (queue mq) \<longrightarrow>
            send_message isoTime now reqBody up sock mq =
              (failure 503 ''Message queue full. Please try again later.'', mq, False))
       \<and> (to' = JStr phoneNumber \<and> phoneNumber \<noteq> [] \<and> truthy message' \<and> up \<and> sock
            \<and> length (queue mq) < CONFIG_messageQueueMaxSize \<longrightarrow>
            send_message isoTime now reqBody up sock mq =
              (\<lparr>status = 200,
                body = [(''success'', JBool True), (''queued'', JBool True),
                        (''to'', JStr (toWhatsAppJID phoneNumber)), (''timestamp'', JStr isoTime)]\<rparr>,
               mq\<lparr>queue := queue mq @ [\<lparr>to = to', message = message', retries = 3, timestamp = now\<rparr>]\<rparr>,
               \<not> processing mq))
       \<and> (to' = JStr phoneNumber \<and> phoneNumber \<noteq> [] \<and> message' = JStr text \<and> text \<noteq> [] \<and> up \<and> sock \<longrightarrow>
            send_message_index isoTime reqBody up sock engine =
              (case engine (toWhatsAppJID phoneNumber) message' of
                 Inr messageId \<Rightarrow>
                   \<lparr>status = 200,
                    body = [(''success'', JBool True), (''messageId'', JStr messageId),
                            (''to'', JStr (toWhatsAppJID phoneNumber)), (''timestamp'', JStr isoTime)]\<rparr>
               | Inl error \<Rightarrow> caught error))"
  using assms
  by (auto simp: send_message_def send_message_index_def enqueue_def bot_sendMessage_def
      split: sum.splits)

theorem send_message_responses_witness:
  "property ''to'' testRequest = Inr (JStr ''+5511999999999'')
   \<and> property ''message'' testRequest = Inr (JStr ''Test'')
   \<and> truthy (JStr ''+5511999999999'') \<and> truthy (JStr ''Test'')
   \<and> send_message ''2026-11-02T00:00:00.000Z'' 7 testRequest False True idle =
        (failure 503 ''WhatsApp not connected. Please scan QR code first.'', idle, False)
   \<and> CONFIG_messageQueueMaxSize \<le> length (queue \<lparr>queue = replicate 100 testMessage, processing = True\<rparr>)
   \<and> send_message ''2026-11-02T00:00:00.000Z'' 7 testRequest True True
          \<lparr>queue = replicate 100 testMessage, processing = True\<rparr> =
        (failure 503 ''Message queue full. Please try again later.'',
         \<lparr>queue = replicate 100 testMessage, processing = True\<rparr>, False)
   \<and> length (queue idle) < CONFIG_messageQueueMaxSize
   \<and> fst (send_message ''2026-11-02T00:00:00.000Z'' 7 testRequest True True idle) =
        \<lparr>status = 200,
         body = [(''success'', JBool True), (''queued'', JBool True),
                 (''to'', JStr ''5511999999999@s.whatsapp.net''),
                 (''timestamp'', JStr ''2026-11-02T00:00:00.000Z'')]\<rparr>
   \<and> property ''message'' (JObj [(''to'', JStr ''+5511999999999'')]) = Inr JUndefined
   \<and> \<not> truthy JUndefined
   \<and> send_message ''2026-11-02T00:00:00.000Z'' 7 (JObj [(''to'', JStr ''+5511999999999'')]) True True idle =
        (failure 400 ''Missing required fields: to, message'', idle, False)"
proof -
  let ?iso = "''2026-11-02T00:00:00.000Z''"
  let ?full = "\<lparr>queue = replicate 100 testMessage, processing = True\<rparr>"
  let ?half = "JObj [(''to'', JStr ''+5511999999999'')]"
  have t: "property ''to'' testRequest = Inr (JStr ''+5511999999999'')"
    and m: "property ''message'' testRequest = Inr (JStr ''Test'')"
    by (simp_all add: testRequest_def)
  have t': "property ''to'' ?half = Inr (JStr ''+5511999999999'')"
    and m': "property ''message'' ?half = Inr JUndefined"
    by simp_all
  have q: "CONFIG_messageQueueMaxSize \<le> length (queue ?full)"
      "length (queue idle) < CONFIG_messageQueueMaxSize"
    by (simp_all add: CONFIG_messageQueueMaxSize_def idle_def)
  have jid: "toWhatsAppJID ''+5511999999999'' = ''5511999999999@s.whatsapp.net''"
    by (simp add: toWhatsAppJID_def isDigit_def startsWith_def)
  have a: "send_message ?iso 7 testRequest False True idle =
        (failure 503 ''WhatsApp not connected. Please scan QR code first.'', idle, False)"
    using send_message_responses [OF t m, of ?iso 7 False True idle] by simp
  have b: "send_message ?iso 7 testRequest True True ?full =
        (failure 503 ''Message queue full. Please try again later.'', ?full, False)"
    using send_message_responses [OF t m, of ?iso 7 True True ?full _ "''Test''"] q(1) by simp
  have c: "fst (send_message ?iso 7 testRequest True True idle) =
        \<lparr>status = 200,
         body = [(''success'', JBool True), (''queued'', JBool True),
                 (''to'', JStr ''5511999999999@s.whatsapp.net''), (''timestamp'', JStr ?iso)]\<rparr>"
    using send_message_responses [OF t m, of ?iso 7 True True idle _ _ "''+5511999999999''"] q(2) jid
    by simp
  have d: "send_message ?iso 7 ?half True True idle =
        (failure 400 ''Missing required fields: to, message'', idle, False)"
    using send_message_responses [OF t' m', of ?iso 7 True True idle] by simp
  show ?thesis
    using t m m' q a b c d by simp
qed

text \<open>
  The recipient is the JSON number 5511999999999: both fields are present, the bot is
  connected and the queue is empty, yet the production server answers 500, after it has
  enqueued the message, because \<^verbatim>\<open>toWhatsAppJID(to)\<close> throws on a number. And the 200 of
  \<^verbatim>\<open>src/index.js\<close> has no \<^verbatim>\<open>queued\<close> field.
\<close>

theorem send_message_counterexample:
  "property ''to'' numberRequest = Inr (JNum 5511999999999) \<and> truthy (JNum 5511999999999)
   \<and> send_message ''2026-11-02T00:00:00.000Z'' 7 numberRequest True True idle =
        (failure 500 ''phoneNumber.replace is not a function'',
         \<lparr>queue = [\<lparr>to = JNum 5511999999999, message = JStr ''Test'', retries = 3, timestamp = 7\<rparr>],
          processing = False\<rparr>,
         True)
   \<and> status (send_message_index ''2026-11-02T00:00:00.000Z'' testRequest True True
                (\<lambda>jid text. Inr ''3EB0'')) = 200
   \<and> map_of (body (send_message_index ''2026-11-02T00:00:00.000Z'' testRequest True True
                (\<lambda>jid text. Inr ''3EB0''))) ''queued'' = None"
  by (simp add: send_message_def send_message_index_def numberRequest_def testRequest_def
      idle_def enqueue_def bot_sendMessage_def caught_def failure_def typeError_def
      CONFIG_messageQueueMaxSize_def)


end
